theory Spec2Isabelle
  imports Main "HOL-Library.Word"
begin

unbundle bit_operations_syntax

section \<open>Black Box: data model\<close>

text \<open>
  A shallow embedding of the game core of \<^verbatim>\<open>blackbox.c\<close>: the coordinate mappers
  \<^verbatim>\<open>range2grid\<close> and \<^verbatim>\<open>grid2range\<close>, the probe \<^verbatim>\<open>isball\<close>, the ray tracer
  \<^verbatim>\<open>fire_laser\<close>, the consistency checker \<^verbatim>\<open>check_guesses\<close> and the move
  interpreter \<^verbatim>\<open>execute_move\<close>.

  C \<^verbatim>\<open>int\<close> values are modelled as \<open>int\<close>: with the dimensions that
  \<^verbatim>\<open>validate_params\<close> admits (2 to 255) no arithmetic of the modelled functions
  leaves the range of a 32-bit \<^verbatim>\<open>int\<close>.  The cells of the two \<^verbatim>\<open>unsigned int\<close>
  arrays are 32-bit words.  An array is a list whose length is the number of elements
  allocated; an access outside of it, undefined in C, is the error \<open>Out_of_bounds\<close>,
  and a failing \<^verbatim>\<open>assert\<close> is the error \<open>Assert_failed\<close>.
\<close>

datatype error = Assert_failed | Out_of_bounds

type_synonym uint = "32 word"

definition BALL_CORRECT :: uint where "BALL_CORRECT = 0x01"
definition BALL_GUESS :: uint where "BALL_GUESS = 0x02"
definition BALL_LOCK :: uint where "BALL_LOCK = 0x04"

definition LASER_FLAGMASK :: uint where "LASER_FLAGMASK = 0xf800"
definition LASER_OMITTED :: uint where "LASER_OMITTED = 0x0800"
definition LASER_REFLECT :: uint where "LASER_REFLECT = 0x1000"
definition LASER_HIT :: uint where "LASER_HIT = 0x2000"
definition LASER_WRONG :: uint where "LASER_WRONG = 0x4000"
definition LASER_FLASHED :: uint where "LASER_FLASHED = 0x8000"

text \<open>\<^verbatim>\<open>#define LASER_EMPTY (~0)\<close>: the \<^verbatim>\<open>int\<close> -1, which is all ones once
  converted to \<^verbatim>\<open>unsigned int\<close> for a comparison with or a store to a cell.\<close>

definition LASER_EMPTY :: uint where "LASER_EMPTY = NOT 0"

record game_state =
  w :: int
  h :: int
  minballs :: int
  maxballs :: int
  nballs :: int
  nlasers :: int
  grid :: "uint list"
  exits :: "uint list"
  done_flag :: int
  laserno :: int
  nguesses :: int
  reveal :: int
  nright :: int
  nwrong :: int
  nmissed :: int

subsection \<open>Array accesses\<close>

definition rd :: "uint list \<Rightarrow> int \<Rightarrow> error + uint" where
  "rd a i = (if 0 \<le> i \<and> i < int (length a) then Inr (a ! nat i) else Inl Out_of_bounds)"

definition wr :: "uint list \<Rightarrow> int \<Rightarrow> uint \<Rightarrow> error + uint list" where
  "wr a i v = (if 0 \<le> i \<and> i < int (length a) then Inr (a[nat i := v]) else Inl Out_of_bounds)"

text \<open>\<^verbatim>\<open>#define GRID(s,x,y) ((s)->grid[(y)*((s)->h+2) + (x)])\<close>: the row stride is
  \<open>h + 2\<close>, as in the source.\<close>

definition GRID_index :: "game_state \<Rightarrow> int \<Rightarrow> int \<Rightarrow> int" where
  "GRID_index s x y = y * (h s + 2) + x"

definition GRID :: "game_state \<Rightarrow> int \<Rightarrow> int \<Rightarrow> error + uint" where
  "GRID s x y = rd (grid s) (GRID_index s x y)"

definition GRID_set :: "game_state \<Rightarrow> int \<Rightarrow> int \<Rightarrow> uint \<Rightarrow> error + game_state" where
  "GRID_set s x y v =
     (case wr (grid s) (GRID_index s x y) v of
        Inl e \<Rightarrow> Inl e
      | Inr g \<Rightarrow> Inr (s\<lparr>grid := g\<rparr>))"

definition exits_get :: "game_state \<Rightarrow> int \<Rightarrow> error + uint" where
  "exits_get s i = rd (exits s) i"

definition exits_set :: "game_state \<Rightarrow> int \<Rightarrow> uint \<Rightarrow> error + game_state" where
  "exits_set s i v =
     (case wr (exits s) i v of
        Inl e \<Rightarrow> Inl e
      | Inr ex \<Rightarrow> Inr (s\<lparr>exits := ex\<rparr>))"

text \<open>Sequencing of fallible steps: the first error ends the run.\<close>

definition seq :: "error + 'a \<Rightarrow> ('a \<Rightarrow> error + 'b) \<Rightarrow> error + 'b" where
  "seq m f = (case m of Inl e \<Rightarrow> Inl e | Inr v \<Rightarrow> f v)"

subsection \<open>Directions and offsets\<close>

definition DIR_UP :: int where "DIR_UP = 0"
definition DIR_RIGHT :: int where "DIR_RIGHT = 1"
definition DIR_DOWN :: int where "DIR_DOWN = 2"
definition DIR_LEFT :: int where "DIR_LEFT = 3"

definition offsets :: "(int \<times> int) list" where
  "offsets = [(0, -1), (1, 0), (0, 1), (-1, 0)]"

text \<open>The macro \<^verbatim>\<open>OFFSET(gx,gy,o)\<close>: \<^verbatim>\<open>off = o; while (off < 0) off += 4; off %= 4\<close>
  leaves the residue of the offset in 0..3, which is \<open>ofs mod 4\<close> on \<open>int\<close>.\<close>

definition OFFSET :: "int \<Rightarrow> int \<Rightarrow> int \<Rightarrow> int \<times> int" where
  "OFFSET gx gy ofs =
     (let off = ofs mod 4 in (gx + fst (offsets ! nat off), gy + snd (offsets ! nat off)))"

section \<open>Coordinate mappers\<close>

definition range2grid :: "game_state \<Rightarrow> int \<Rightarrow> (int \<times> int \<times> int) option" where
  "range2grid state rangeno =
     (if rangeno < 0 then None
      else if rangeno < w state then Some (rangeno + 1, 0, DIR_DOWN)
      else let rangeno = rangeno - w state in
        if rangeno < h state then Some (w state + 1, rangeno + 1, DIR_LEFT)
        else let rangeno = rangeno - h state in
          if rangeno < w state then Some (w state - rangeno, h state + 1, DIR_UP)
          else let rangeno = rangeno - w state in
            if rangeno < h state then Some (0, h state - rangeno, DIR_RIGHT)
            else None)"

definition grid2range :: "game_state \<Rightarrow> int \<Rightarrow> int \<Rightarrow> int option" where
  "grid2range state x y =
     (let x1 = w state + 1; y1 = h state + 1 in
      if x > 0 \<and> x < x1 \<and> y > 0 \<and> y < y1 then None
      else if x < 0 \<or> x > y1 \<or> y < 0 \<or> y > y1 then None
      else if (x = 0 \<or> x = x1) \<and> (y = 0 \<or> y = y1) then None
      else if y = 0 then Some (x - 1)
      else if x = x1 then Some (y - 1 + w state)
      else if y = y1 then Some ((w state - x) + w state + h state)
      else Some ((h state - y) + w state + w state + h state))"

section \<open>Ray tracer\<close>

datatype look = LOOK_LEFT | LOOK_FORWARD | LOOK_RIGHT

text \<open>\<^verbatim>\<open>isball\<close>: the bounds test compares \<open>gx\<close> with \<open>h\<close> and \<open>gy\<close> with \<open>w\<close>,
  as in the source.  The parameter \<^verbatim>\<open>lookwhere\<close> ranges over the three enumerators,
  so the assertion on an unknown \<^verbatim>\<open>lookwhere\<close> has no counterpart.\<close>

definition isball :: "game_state \<Rightarrow> int \<Rightarrow> int \<Rightarrow> int \<Rightarrow> look \<Rightarrow> error + bool" where
  "isball state gx gy direction lookwhere =
     (let (gx, gy) = OFFSET gx gy direction;
          (gx, gy) = (case lookwhere of
                        LOOK_LEFT \<Rightarrow> OFFSET gx gy (direction - 1)
                      | LOOK_RIGHT \<Rightarrow> OFFSET gx gy (direction + 1)
                      | LOOK_FORWARD \<Rightarrow> (gx, gy))
      in if gx < 1 \<or> gy < 1 \<or> gx > h state \<or> gy > w state then Inr False
         else seq (GRID state gx gy) (\<lambda>c. Inr (c AND BALL_CORRECT \<noteq> 0)))"

text \<open>Lines 561 to 579 of \<^verbatim>\<open>fire_laser\<close>: the ray is back on the firing range at
  \<open>(x, y)\<close>.  A laser number is taken in both branches.\<close>

definition back_on_range ::
  "game_state \<Rightarrow> int \<Rightarrow> int \<Rightarrow> int \<Rightarrow> int \<Rightarrow> int \<Rightarrow> error + game_state" where
  "back_on_range state xstart ystart lno x y =
     (let newno = laserno state;
          state = state\<lparr>laserno := laserno state + 1\<rparr>
      in if xstart = x \<and> ystart = y then
           seq (GRID_set state x y LASER_REFLECT) (\<lambda>state.
           exits_set state lno LASER_REFLECT)
         else
           seq (GRID_set state xstart ystart (word_of_int newno)) (\<lambda>state.
           seq (GRID_set state x y (word_of_int newno)) (\<lambda>state.
           case grid2range state x y of
             None \<Rightarrow> Inl Assert_failed
           | Some exitno \<Rightarrow>
               seq (exits_set state lno (word_of_int exitno)) (\<lambda>state.
               exits_set state exitno (word_of_int lno)))))"

text \<open>Lines 585 to 589: a ball straight ahead; the origin is marked as a hit.\<close>

definition mark_hit :: "game_state \<Rightarrow> int \<Rightarrow> int \<Rightarrow> int \<Rightarrow> error + game_state" where
  "mark_hit state x y lno =
     seq (GRID_set state x y LASER_HIT) (\<lambda>state. exits_set state lno LASER_HIT)"

definition mark_reflect :: "game_state \<Rightarrow> int \<Rightarrow> int \<Rightarrow> int \<Rightarrow> error + game_state" where
  "mark_reflect state x y lno =
     seq (GRID_set state x y LASER_REFLECT) (\<lambda>state. exits_set state lno LASER_REFLECT)"

text \<open>The \<^verbatim>\<open>while (1)\<close> loop of \<^verbatim>\<open>fire_laser\<close>.  The result \<open>None\<close> stands for a
  loop that never ends; \<open>Some (Inl e)\<close> for an abort; \<open>Some (Inr s)\<close> for a return
  with the state \<open>s\<close>.\<close>

partial_function (option) fire_loop ::
  "game_state \<Rightarrow> int \<Rightarrow> int \<Rightarrow> int \<Rightarrow> int \<Rightarrow> int \<Rightarrow> int \<Rightarrow> (error + game_state) option" where
  "fire_loop state xstart ystart lno x y direction =
     (case grid2range state x y of
        Some unused \<Rightarrow> Some (back_on_range state xstart ystart lno x y)
      | None \<Rightarrow>
         (case GRID state x y of
            Inl e \<Rightarrow> Some (Inl e)
          | Inr c \<Rightarrow>
             if c AND BALL_CORRECT \<noteq> 0 then Some (Inl Assert_failed)
             else
              (case isball state x y direction LOOK_FORWARD of
                 Inl e \<Rightarrow> Some (Inl e)
               | Inr ahead \<Rightarrow>
                  if ahead then Some (mark_hit state xstart ystart lno)
                  else
                   (case isball state x y direction LOOK_LEFT of
                      Inl e \<Rightarrow> Some (Inl e)
                    | Inr left \<Rightarrow>
                       if left then
                         fire_loop state xstart ystart lno x y ((direction + 1) mod 4)
                       else
                        (case isball state x y direction LOOK_RIGHT of
                           Inl e \<Rightarrow> Some (Inl e)
                         | Inr right \<Rightarrow>
                            if right then
                              fire_loop state xstart ystart lno x y ((direction + 3) mod 4)
                            else
                              fire_loop state xstart ystart lno
                                (fst (OFFSET x y direction)) (snd (OFFSET x y direction))
                                direction)))))"

declare fire_loop.simps [code]

text \<open>\<^verbatim>\<open>fire_laser\<close>: the assertion on \<^verbatim>\<open>grid2range\<close>, the two rules for the
  first step (a hit before a reflection), then the loop from the first arena cell.\<close>

definition fire_laser :: "game_state \<Rightarrow> int \<Rightarrow> int \<Rightarrow> int \<Rightarrow> (error + game_state) option" where
  "fire_laser state x y direction =
     (case grid2range state x y of
        None \<Rightarrow> Some (Inl Assert_failed)
      | Some lno \<Rightarrow>
         (case isball state x y direction LOOK_FORWARD of
            Inl e \<Rightarrow> Some (Inl e)
          | Inr ahead \<Rightarrow>
             if ahead then Some (mark_hit state x y lno)
             else
              (case isball state x y direction LOOK_LEFT of
                 Inl e \<Rightarrow> Some (Inl e)
               | Inr left \<Rightarrow>
                  if left then Some (mark_reflect state x y lno)
                  else
                   (case isball state x y direction LOOK_RIGHT of
                      Inl e \<Rightarrow> Some (Inl e)
                    | Inr right \<Rightarrow>
                       if right then Some (mark_reflect state x y lno)
                       else
                         fire_loop state x y lno
                           (fst (OFFSET x y direction)) (snd (OFFSET x y direction))
                           direction))))"

section \<open>Duplicating a state\<close>

text \<open>\<^verbatim>\<open>dup_game\<close> allocates \<open>(w+2)*(h+2)\<close> cells and \<open>nlasers\<close> exits and fills them
  with \<^verbatim>\<open>memcpy\<close>; a source array with fewer elements is read out of bounds.\<close>

definition dup_game :: "game_state \<Rightarrow> error + game_state" where
  "dup_game state =
     (let gn = (w state + 2) * (h state + 2); en = nlasers state in
      if gn < 0 \<or> en < 0 \<or> int (length (grid state)) < gn \<or> int (length (exits state)) < en
      then Inl Out_of_bounds
      else Inr (state\<lparr>grid := take (nat gn) (grid state),
                       exits := take (nat en) (exits state)\<rparr>))"

section \<open>Consistency checker\<close>

text \<open>A \<^verbatim>\<open>for\<close> loop over a list of index values, with a body that may fail
  (\<open>for_each\<close>) or may also not return (\<open>for_each_d\<close>).\<close>

fun for_each :: "'a list \<Rightarrow> ('a \<Rightarrow> 's \<Rightarrow> error + 's) \<Rightarrow> 's \<Rightarrow> error + 's" where
  "for_each [] f s = Inr s"
| "for_each (a # as) f s = (case f a s of Inl e \<Rightarrow> Inl e | Inr s' \<Rightarrow> for_each as f s')"

fun for_each_d ::
  "'a list \<Rightarrow> ('a \<Rightarrow> 's \<Rightarrow> (error + 's) option) \<Rightarrow> 's \<Rightarrow> (error + 's) option" where
  "for_each_d [] f s = Some (Inr s)"
| "for_each_d (a # as) f s =
     (case f a s of
        None \<Rightarrow> None
      | Some (Inl e) \<Rightarrow> Some (Inl e)
      | Some (Inr s') \<Rightarrow> for_each_d as f s')"

text \<open>Lines 625 to 629: the body of the loop that clears the lasers of the solution.\<close>

definition clear_laser :: "int \<Rightarrow> game_state \<Rightarrow> error + game_state" where
  "clear_laser i solution =
     (case range2grid solution i of
        None \<Rightarrow> Inl Assert_failed
      | Some (x, y, unused) \<Rightarrow>
          seq (GRID_set solution x y 0) (\<lambda>solution. exits_set solution i LASER_EMPTY))"

text \<open>Lines 637 to 639: the guessed balls become the balls of the second state.\<close>

definition guess_to_correct :: "int \<Rightarrow> int \<Rightarrow> game_state \<Rightarrow> error + game_state" where
  "guess_to_correct x y guesses =
     seq (GRID guesses x y) (\<lambda>c.
     seq (GRID_set guesses x y (c AND NOT BALL_CORRECT)) (\<lambda>guesses.
     seq (GRID guesses x y) (\<lambda>c.
       if c AND BALL_GUESS \<noteq> 0 then GRID_set guesses x y (c OR BALL_CORRECT)
       else Inr guesses)))"

text \<open>Lines 647 to 651: a laser is fired on each of the two states where its exit is
  still empty there.\<close>

definition fire_if_empty ::
  "int \<Rightarrow> int \<Rightarrow> int \<Rightarrow> int \<Rightarrow> game_state \<Rightarrow> (error + game_state) option" where
  "fire_if_empty i x y dir st =
     (case exits_get st i of
        Inl e \<Rightarrow> Some (Inl e)
      | Inr v \<Rightarrow> if v = LASER_EMPTY then fire_laser st x y dir else Some (Inr st))"

definition fire_both ::
  "int \<Rightarrow> game_state \<times> game_state \<Rightarrow> (error + game_state \<times> game_state) option" where
  "fire_both i sg =
     (case range2grid (fst sg) i of
        None \<Rightarrow> Some (Inl Assert_failed)
      | Some (x, y, dir) \<Rightarrow>
         (case fire_if_empty i x y dir (fst sg) of
            None \<Rightarrow> None
          | Some (Inl e) \<Rightarrow> Some (Inl e)
          | Some (Inr solution) \<Rightarrow>
             (case fire_if_empty i x y dir (snd sg) of
                None \<Rightarrow> None
              | Some (Inl e) \<Rightarrow> Some (Inl e)
              | Some (Inr guesses) \<Rightarrow> Some (Inr (solution, guesses)))))"

text \<open>Lines 657 to 680: one exit of the solution is compared with the same exit of the
  guesses; the pair carried through the loop is the caller's state and \<^verbatim>\<open>ret\<close>.
  The exit read back as the argument of \<^verbatim>\<open>range2grid\<close> is converted from
  \<^verbatim>\<open>unsigned int\<close> to \<^verbatim>\<open>int\<close>.\<close>

definition add_omitted :: "int \<Rightarrow> int \<Rightarrow> int \<Rightarrow> uint \<Rightarrow> game_state \<Rightarrow> error + game_state" where
  "add_omitted i x y se state =
     seq (exits_set state i se) (\<lambda>state.
     seq (if se = LASER_REFLECT \<or> se = LASER_HIT then GRID_set state x y se
          else
            (let newno = laserno state;
                 state = state\<lparr>laserno := laserno state + 1\<rparr>
             in case range2grid state (sint se) of
                  None \<Rightarrow> Inl Assert_failed
                | Some (ex, ey, unused) \<Rightarrow>
                    seq (GRID_set state x y (word_of_int newno)) (\<lambda>state.
                    GRID_set state ex ey (word_of_int newno)))) (\<lambda>state.
     seq (exits_get state i) (\<lambda>v.
     exits_set state i (v OR LASER_OMITTED))))"

definition compare_laser ::
  "game_state \<Rightarrow> game_state \<Rightarrow> int \<Rightarrow> game_state \<times> int \<Rightarrow> error + game_state \<times> int" where
  "compare_laser solution guesses i sr =
     (case range2grid solution i of
        None \<Rightarrow> Inl Assert_failed
      | Some (x, y, unused) \<Rightarrow>
          seq (exits_get solution i) (\<lambda>se.
          seq (exits_get guesses i) (\<lambda>ge.
            if se \<noteq> ge then
              seq (exits_get (fst sr) i) (\<lambda>ste.
              seq (if ste = LASER_EMPTY then add_omitted i x y se (fst sr)
                   else exits_set (fst sr) i (ste OR LASER_WRONG)) (\<lambda>state.
              Inr (state, 0)))
            else Inr sr)))"

text \<open>Lines 688 to 691: the balls of the caller's state become its guesses.\<close>

definition fix_up :: "int \<Rightarrow> int \<Rightarrow> game_state \<Rightarrow> error + game_state" where
  "fix_up x y state =
     seq (GRID state x y) (\<lambda>c.
       if c AND BALL_GUESS \<noteq> 0 then GRID_set state x y (c OR BALL_CORRECT)
       else GRID_set state x y (c AND NOT BALL_CORRECT))"

text \<open>Lines 700 to 706: one cell is counted.\<close>

definition count_cell :: "int \<Rightarrow> int \<Rightarrow> game_state \<Rightarrow> error + game_state" where
  "count_cell x y state =
     seq (GRID state x y) (\<lambda>c.
       let bs = c AND (BALL_GUESS OR BALL_CORRECT) in
       if bs = (BALL_GUESS OR BALL_CORRECT) then Inr (state\<lparr>nright := nright state + 1\<rparr>)
       else if bs = BALL_GUESS then Inr (state\<lparr>nwrong := nwrong state + 1\<rparr>)
       else if bs = BALL_CORRECT then Inr (state\<lparr>nmissed := nmissed state + 1\<rparr>)
       else Inr state)"

text \<open>The loop \<^verbatim>\<open>for (x = 1; x <= w; x++) for (y = 1; y <= h; y++)\<close> over the arena.\<close>

definition for_arena ::
  "game_state \<Rightarrow> (int \<Rightarrow> int \<Rightarrow> game_state \<Rightarrow> error + game_state) \<Rightarrow> game_state
   \<Rightarrow> error + game_state" where
  "for_arena dims body s = for_each [1..w dims] (\<lambda>x. for_each [1..h dims] (\<lambda>y. body x y)) s"

text \<open>Lines 695 to 711, from the label \<^verbatim>\<open>done\<close>.\<close>

definition fill_counts :: "game_state \<Rightarrow> error + game_state" where
  "fill_counts state =
     for_arena state count_cell (state\<lparr>nright := 0, nwrong := 0, nmissed := 0\<rparr>)"

text \<open>\<^verbatim>\<open>check_guesses\<close> returns \<^verbatim>\<open>ret\<close> and leaves its effect in the state it was
  given; the two duplicates are local.\<close>

definition check_guesses :: "game_state \<Rightarrow> (error + int \<times> game_state) option" where
  "check_guesses state =
     (case seq (dup_game state) (\<lambda>solution.
           seq (for_each [0..nlasers solution - 1] clear_laser solution) (\<lambda>solution.
           seq (dup_game solution) (\<lambda>guesses.
           seq (for_arena state guess_to_correct guesses) (\<lambda>guesses.
           Inr (solution, guesses))))) of
        Inl e \<Rightarrow> Some (Inl e)
      | Inr (solution, guesses) \<Rightarrow>
         (case for_each_d [0..nlasers solution - 1] fire_both (solution, guesses) of
            None \<Rightarrow> None
          | Some (Inl e) \<Rightarrow> Some (Inl e)
          | Some (Inr (solution, guesses)) \<Rightarrow>
              Some
               (seq (for_each [0..nlasers solution - 1] (compare_laser solution guesses)
                       (state, 1)) (\<lambda>(state, ret).
                seq (if ret = 0 then Inr state else for_arena state fix_up state) (\<lambda>state.
                seq (fill_counts state) (\<lambda>state.
                Inr (ret, state)))))))"

section \<open>The C library's \<^verbatim>\<open>sscanf\<close>\<close>

text \<open>The two calls of \<^verbatim>\<open>sscanf\<close> in \<^verbatim>\<open>execute_move\<close> use the formats
  \<^verbatim>\<open>%d\<close> and \<^verbatim>\<open>%d,%d\<close>.  A \<^verbatim>\<open>%d\<close> skips white space, reads an optional
  sign and then decimal digits; when no digit follows, the conversion fails, the scan
  stops and the remaining variables keep the values they had.  The digits are
  converted as \<^verbatim>\<open>strtol\<close> converts them, into a \<^verbatim>\<open>long\<close> of 64 bits that
  saturates at its two ends, and the \<^verbatim>\<open>long\<close> is stored into the \<^verbatim>\<open>int\<close> of
  32 bits, which keeps its low 32 bits in two's complement.  (The C standard leaves the
  result undefined when the number does not fit the \<^verbatim>\<open>int\<close>; this is the conversion
  of the GNU C library where \<^verbatim>\<open>long\<close> has 64 bits.)\<close>

definition strtol_value :: "int \<Rightarrow> int" where
  "strtol_value v = max (- (2 ^ 63)) (min (2 ^ 63 - 1) v)"

definition int_of_long :: "int \<Rightarrow> int" where
  "int_of_long l = (l + 2 ^ 31) mod 2 ^ 32 - 2 ^ 31"

definition isspace :: "char \<Rightarrow> bool" where
  "isspace c = (c = CHR 0x20 \<or> c = CHR 0x09 \<or> c = CHR 0x0A \<or> c = CHR 0x0B \<or> c = CHR 0x0C
                \<or> c = CHR 0x0D)"

definition isdigit :: "char \<Rightarrow> bool" where
  "isdigit c = (48 \<le> (of_char c :: nat) \<and> (of_char c :: nat) \<le> 57)"

fun scan_digits :: "string \<Rightarrow> int \<Rightarrow> int \<times> string" where
  "scan_digits [] acc = (acc, [])"
| "scan_digits (c # cs) acc =
     (if isdigit c then scan_digits cs (acc * 10 + (int (of_char c) - 48)) else (acc, c # cs))"

definition scan_int :: "string \<Rightarrow> (int \<times> string) option" where
  "scan_int s =
     (let s = dropWhile isspace s;
          (neg, s) = (case s of
                        [] \<Rightarrow> (False, [])
                      | c # cs \<Rightarrow> if c = CHR ''-'' then (True, cs)
                                  else if c = CHR ''+'' then (False, cs)
                                  else (False, s))
      in case s of
           [] \<Rightarrow> None
         | c # cs \<Rightarrow>
             if isdigit c then
               (let (v, rest) = scan_digits s 0
                in Some (int_of_long (strtol_value (if neg then - v else v)), rest))
             else None)"

text \<open>\<^verbatim>\<open>sscanf(s, "%d", &a)\<close>, given the value \<open>a\<close> had before the call.\<close>

definition sscanf_d :: "string \<Rightarrow> int \<Rightarrow> int" where
  "sscanf_d s a = (case scan_int s of None \<Rightarrow> a | Some (v, rest) \<Rightarrow> v)"

text \<open>\<^verbatim>\<open>sscanf(s, "%d,%d", &a, &b)\<close>, given the values of \<open>a\<close> and \<open>b\<close> before.\<close>

definition sscanf_d_d :: "string \<Rightarrow> int \<times> int \<Rightarrow> int \<times> int" where
  "sscanf_d_d s ab =
     (case scan_int s of
        None \<Rightarrow> ab
      | Some (v, rest) \<Rightarrow>
         (case rest of
            [] \<Rightarrow> (v, snd ab)
          | c # cs \<Rightarrow>
             if c = CHR '','' then
               (case scan_int cs of None \<Rightarrow> (v, snd ab) | Some (v', rest') \<Rightarrow> (v, v'))
             else (v, snd ab)))"

section \<open>Moves\<close>

text \<open>The result of \<^verbatim>\<open>execute_move\<close>: \<open>None\<close> when it does not return,
  \<open>Some (Inl e)\<close> when it aborts, \<open>Some (Inr None)\<close> for the null pointer of a
  rejected move and \<open>Some (Inr (Some s))\<close> for the new state \<open>s\<close>.\<close>

type_synonym move_result = "(error + game_state option) option"

definition badmove :: move_result where
  "badmove = Some (Inr None)"

definition moved :: "error + game_state \<Rightarrow> move_result" where
  "moved r = (case r of Inl e \<Rightarrow> Some (Inl e) | Inr s \<Rightarrow> Some (Inr (Some s)))"

text \<open>The macros \<^verbatim>\<open>COUNTLOCK\<close> and \<^verbatim>\<open>SETLOCKIF(c)\<close> at the cell \<open>(gx, gy)\<close>.\<close>

definition COUNTLOCK :: "game_state \<Rightarrow> int \<Rightarrow> int \<Rightarrow> int \<Rightarrow> error + int" where
  "COUNTLOCK ret gx gy lcount =
     seq (GRID ret gx gy) (\<lambda>c. Inr (if c AND BALL_LOCK \<noteq> 0 then lcount + 1 else lcount))"

definition SETLOCKIF :: "int \<Rightarrow> int \<Rightarrow> int \<Rightarrow> int \<Rightarrow> game_state \<Rightarrow> error + game_state" where
  "SETLOCKIF lcount c gx gy ret =
     seq (GRID ret gx gy) (\<lambda>v.
       if lcount > c then GRID_set ret gx gy (v AND NOT BALL_LOCK)
       else GRID_set ret gx gy (v OR BALL_LOCK))"

definition toggle_ball :: "game_state \<Rightarrow> int \<Rightarrow> int \<Rightarrow> error + game_state" where
  "toggle_ball ret gx gy =
     seq (GRID ret gx gy) (\<lambda>c.
       if c AND BALL_GUESS \<noteq> 0 then
         seq (GRID (ret\<lparr>nguesses := nguesses ret - 1\<rparr>) gx gy) (\<lambda>c.
         GRID_set (ret\<lparr>nguesses := nguesses ret - 1\<rparr>) gx gy (c AND NOT BALL_GUESS))
       else
         seq (GRID (ret\<lparr>nguesses := nguesses ret + 1\<rparr>) gx gy) (\<lambda>c.
         GRID_set (ret\<lparr>nguesses := nguesses ret + 1\<rparr>) gx gy (c OR BALL_GUESS)))"

definition toggle_lock :: "game_state \<Rightarrow> int \<Rightarrow> int \<Rightarrow> error + game_state" where
  "toggle_lock ret gx gy = seq (GRID ret gx gy) (\<lambda>c. GRID_set ret gx gy (c XOR BALL_LOCK))"

definition toggle_column_lock :: "game_state \<Rightarrow> int \<Rightarrow> error + game_state" where
  "toggle_column_lock ret gx =
     seq (for_each [1..h ret] (\<lambda>gy lcount. COUNTLOCK ret gx gy lcount) 0) (\<lambda>lcount.
     for_each [1..h ret] (\<lambda>gy. SETLOCKIF lcount (h ret div 2) gx gy) ret)"

definition toggle_row_lock :: "game_state \<Rightarrow> int \<Rightarrow> error + game_state" where
  "toggle_row_lock ret gy =
     seq (for_each [1..w ret] (\<lambda>gx lcount. COUNTLOCK ret gx gy lcount) 0) (\<lambda>lcount.
     for_each [1..w ret] (\<lambda>gx. SETLOCKIF lcount (w ret div 2) gx gy) ret)"

definition execute_move :: "game_state \<Rightarrow> string \<Rightarrow> move_result" where
  "execute_move from move =
     (case dup_game from of
        Inl e \<Rightarrow> Some (Inl e)
      | Inr ret \<Rightarrow>
         if move = ''S'' then Some (Inr (Some (ret\<lparr>reveal := 1\<rparr>)))
         else if reveal from \<noteq> 0 then badmove
         else if length move < 1 then badmove
         else if hd move = CHR ''T'' then
           (let (gx, gy) = sscanf_d_d (drop 1 move) (-1, -1) in
            if gx < 1 \<or> gy < 1 \<or> gx > w ret \<or> gy > h ret then badmove
            else moved (toggle_ball ret gx gy))
         else if hd move = CHR ''F'' then
           (let rangeno = sscanf_d (drop 1 move) (-1) in
            case exits_get ret rangeno of
              Inl e \<Rightarrow> Some (Inl e)
            | Inr v \<Rightarrow>
                if v \<noteq> LASER_EMPTY then badmove
                else
                 (case range2grid ret rangeno of
                    None \<Rightarrow> badmove
                  | Some (gx, gy, direction) \<Rightarrow>
                     (case fire_laser ret gx gy direction of
                        None \<Rightarrow> None
                      | Some r \<Rightarrow> moved r)))
         else if hd move = CHR ''R'' then
           (if nguesses ret < minballs ret \<or> nguesses ret > maxballs ret then badmove
            else
             (case check_guesses ret of
                None \<Rightarrow> None
              | Some (Inl e) \<Rightarrow> Some (Inl e)
              | Some (Inr (consistent, ret)) \<Rightarrow> Some (Inr (Some (ret\<lparr>reveal := 1\<rparr>)))))
         else if hd move = CHR ''L'' then
           (if length move < 2 then badmove
            else if move ! 1 = CHR ''B'' then
              (let (gx, gy) = sscanf_d_d (drop 2 move) (-1, -1) in
               if gx < 1 \<or> gy < 1 \<or> gx > w ret \<or> gy > h ret then badmove
               else moved (toggle_lock ret gx gy))
            else if move ! 1 = CHR ''C'' then
              (let gx = sscanf_d (drop 2 move) (-1) in
               if gx < 1 \<or> gx > w ret then badmove
               else moved (toggle_column_lock ret gx))
            else if move ! 1 = CHR ''R'' then
              (let gy = sscanf_d (drop 2 move) (-1) in
               if gy < 1 \<or> gy > h ret then badmove
               else moved (toggle_row_lock ret gy))
            else badmove)
         else badmove)"

section \<open>Moves on states in memory\<close>

text \<open>\<^verbatim>\<open>execute_move\<close> receives a pointer and returns a pointer.  To state what it
  does to the state it was given, the states are placed in a heap: a
  \<^verbatim>\<open>struct game_state\<close> at an address holds its scalar members and the addresses of
  its two arrays (the list components of \<open>members\<close> stay empty), and the arrays live
  at addresses of their own.  Allocation takes the addresses from \<open>brk\<close> upwards.
  The operations on one state (\<^verbatim>\<open>fire_laser\<close>, \<^verbatim>\<open>check_guesses\<close> and the blocks of
  \<^verbatim>\<open>execute_move\<close>) reach memory through the one pointer they are given, so
  \<open>on_state\<close> runs them on the value found there and writes the result back there.\<close>

type_synonym addr = nat

record game_struct =
  members :: game_state
  grid_ptr :: addr
  exits_ptr :: addr

record heap =
  structs :: "addr \<Rightarrow> game_struct option"
  arrays :: "addr \<Rightarrow> uint list option"
  brk :: addr

definition load :: "heap \<Rightarrow> addr \<Rightarrow> game_state option" where
  "load H p =
     (case structs H p of
        None \<Rightarrow> None
      | Some st \<Rightarrow>
         (case arrays H (grid_ptr st) of
            None \<Rightarrow> None
          | Some ga \<Rightarrow>
             (case arrays H (exits_ptr st) of
                None \<Rightarrow> None
              | Some ea \<Rightarrow> Some ((members st)\<lparr>grid := ga, exits := ea\<rparr>))))"

definition store :: "heap \<Rightarrow> addr \<Rightarrow> game_state \<Rightarrow> heap" where
  "store H p s =
     (case structs H p of
        None \<Rightarrow> H
      | Some st \<Rightarrow>
          H\<lparr>structs := (structs H)(p \<mapsto> st\<lparr>members := s\<lparr>grid := [], exits := []\<rparr>\<rparr>),
            arrays := (arrays H)(grid_ptr st \<mapsto> grid s, exits_ptr st \<mapsto> exits s)\<rparr>)"

definition on_state ::
  "heap \<Rightarrow> addr \<Rightarrow> (game_state \<Rightarrow> (error + game_state) option) \<Rightarrow> (error + heap) option" where
  "on_state H p f =
     (case load H p of
        None \<Rightarrow> Some (Inl Out_of_bounds)
      | Some s \<Rightarrow>
         (case f s of
            None \<Rightarrow> None
          | Some (Inl e) \<Rightarrow> Some (Inl e)
          | Some (Inr s') \<Rightarrow> Some (Inr (store H p s'))))"

definition dup_game_h :: "heap \<Rightarrow> addr \<Rightarrow> error + heap \<times> addr" where
  "dup_game_h H state =
     (case structs H state of
        None \<Rightarrow> Inl Out_of_bounds
      | Some st \<Rightarrow>
         (case arrays H (grid_ptr st) of
            None \<Rightarrow> Inl Out_of_bounds
          | Some ga \<Rightarrow>
             (case arrays H (exits_ptr st) of
                None \<Rightarrow> Inl Out_of_bounds
              | Some ea \<Rightarrow>
                 (let gn = (w (members st) + 2) * (h (members st) + 2);
                      en = nlasers (members st);
                      ret = brk H; g = brk H + 1; e = brk H + 2
                  in if gn < 0 \<or> en < 0 \<or> int (length ga) < gn \<or> int (length ea) < en
                     then Inl Out_of_bounds
                     else Inr (H\<lparr>structs := (structs H)(ret \<mapsto>
                                      \<lparr>members = members st, grid_ptr = g, exits_ptr = e\<rparr>),
                                  arrays := (arrays H)(g \<mapsto> take (nat gn) ga,
                                                        e \<mapsto> take (nat en) ea),
                                  brk := brk H + 3\<rparr>, ret)))))"

definition free_game_h :: "heap \<Rightarrow> addr \<Rightarrow> heap" where
  "free_game_h H state =
     (case structs H state of
        None \<Rightarrow> H
      | Some st \<Rightarrow>
          H\<lparr>structs := (structs H)(state := None),
            arrays := (arrays H)(exits_ptr st := None, grid_ptr st := None)\<rparr>)"

type_synonym move_result_h = "(error + heap \<times> addr option) option"

definition badmove_h :: "heap \<Rightarrow> addr \<Rightarrow> move_result_h" where
  "badmove_h H ret = Some (Inr (free_game_h H ret, None))"

definition moved_h :: "addr \<Rightarrow> (error + heap) option \<Rightarrow> move_result_h" where
  "moved_h ret r =
     (case r of
        None \<Rightarrow> None
      | Some (Inl e) \<Rightarrow> Some (Inl e)
      | Some (Inr H) \<Rightarrow> Some (Inr (H, Some ret)))"

definition reveal_checked :: "game_state \<Rightarrow> (error + game_state) option" where
  "reveal_checked ret =
     (case check_guesses ret of
        None \<Rightarrow> None
      | Some (Inl e) \<Rightarrow> Some (Inl e)
      | Some (Inr (consistent, ret)) \<Rightarrow> Some (Inr (ret\<lparr>reveal := 1\<rparr>)))"

definition execute_move_h :: "heap \<Rightarrow> addr \<Rightarrow> string \<Rightarrow> move_result_h" where
  "execute_move_h H from move =
     (case dup_game_h H from of
        Inl e \<Rightarrow> Some (Inl e)
      | Inr (H, ret) \<Rightarrow>
         (case load H from of
            None \<Rightarrow> Some (Inl Out_of_bounds)
          | Some from_v \<Rightarrow>
             (case load H ret of
                None \<Rightarrow> Some (Inl Out_of_bounds)
              | Some ret_v \<Rightarrow>
                 if move = ''S'' then
                   moved_h ret (on_state H ret (\<lambda>r. Some (Inr (r\<lparr>reveal := 1\<rparr>))))
                 else if reveal from_v \<noteq> 0 then badmove_h H ret
                 else if length move < 1 then badmove_h H ret
                 else if hd move = CHR ''T'' then
                   (let (gx, gy) = sscanf_d_d (drop 1 move) (-1, -1) in
                    if gx < 1 \<or> gy < 1 \<or> gx > w ret_v \<or> gy > h ret_v then badmove_h H ret
                    else moved_h ret (on_state H ret (\<lambda>r. Some (toggle_ball r gx gy))))
                 else if hd move = CHR ''F'' then
                   (let rangeno = sscanf_d (drop 1 move) (-1) in
                    case exits_get ret_v rangeno of
                      Inl e \<Rightarrow> Some (Inl e)
                    | Inr v \<Rightarrow>
                        if v \<noteq> LASER_EMPTY then badmove_h H ret
                        else
                         (case range2grid ret_v rangeno of
                            None \<Rightarrow> badmove_h H ret
                          | Some (gx, gy, direction) \<Rightarrow>
                              moved_h ret (on_state H ret (\<lambda>r. fire_laser r gx gy direction))))
                 else if hd move = CHR ''R'' then
                   (if nguesses ret_v < minballs ret_v \<or> nguesses ret_v > maxballs ret_v
                    then badmove_h H ret
                    else moved_h ret (on_state H ret reveal_checked))
                 else if hd move = CHR ''L'' then
                   (if length move < 2 then badmove_h H ret
                    else if move ! 1 = CHR ''B'' then
                      (let (gx, gy) = sscanf_d_d (drop 2 move) (-1, -1) in
                       if gx < 1 \<or> gy < 1 \<or> gx > w ret_v \<or> gy > h ret_v then badmove_h H ret
                       else moved_h ret (on_state H ret (\<lambda>r. Some (toggle_lock r gx gy))))
                    else if move ! 1 = CHR ''C'' then
                      (let gx = sscanf_d (drop 2 move) (-1) in
                       if gx < 1 \<or> gx > w ret_v then badmove_h H ret
                       else moved_h ret (on_state H ret (\<lambda>r. Some (toggle_column_lock r gx))))
                    else if move ! 1 = CHR ''R'' then
                      (let gy = sscanf_d (drop 2 move) (-1) in
                       if gy < 1 \<or> gy > h ret_v then badmove_h H ret
                       else moved_h ret (on_state H ret (\<lambda>r. Some (toggle_row_lock r gy))))
                    else badmove_h H ret)
                 else badmove_h H ret)))"

definition heap_ok :: "heap \<Rightarrow> bool" where
  "heap_ok H \<longleftrightarrow>
     (\<forall>a st. structs H a = Some st \<longrightarrow>
        a < brk H \<and> grid_ptr st < brk H \<and> exits_ptr st < brk H \<and> grid_ptr st \<noteq> exits_ptr st) \<and>
     (\<forall>a. arrays H a \<noteq> None \<longrightarrow> a < brk H)"


section \<open>Creating a state\<close>

text \<open>\<^verbatim>\<open>new_game\<close>, from the point where the description has been decoded into the
  bytes \<open>bmp\<close> (width, height, then the two coordinates of each ball; the decoders
  \<^verbatim>\<open>hex2bin\<close> and \<^verbatim>\<open>obfuscate_bitmap\<close> belong to another file and are taken as
  run).  The number of balls is the one the length of the description gives.\<close>

definition place_ball :: "int list \<Rightarrow> int \<Rightarrow> game_state \<Rightarrow> error + game_state" where
  "place_ball bmp i state =
     GRID_set state (bmp ! nat ((i + 1) * 2 + 0) + 1) (bmp ! nat ((i + 1) * 2 + 1) + 1)
       BALL_CORRECT"

definition new_game :: "int \<Rightarrow> int \<Rightarrow> int list \<Rightarrow> error + game_state" where
  "new_game minb maxb bmp =
     (let nb = (int (length bmp) - 2) div 2;
          wd = bmp ! 0; ht = bmp ! 1;
          state = \<lparr>w = wd, h = ht, minballs = minb, maxballs = maxb, nballs = nb,
                   nlasers = 2 * (wd + ht),
                   grid = replicate (nat ((wd + 2) * (ht + 2))) 0,
                   exits = replicate (nat (2 * (wd + ht))) LASER_EMPTY,
                   done_flag = 0, laserno = 1, nguesses = 0, reveal = 0,
                   nright = 0, nwrong = 0, nmissed = 0\<rparr>
      in for_each [0..nb - 1] (place_ball bmp) state)"

section \<open>Notions used to state the properties\<close>

text \<open>A state as \<^verbatim>\<open>new_game\<close> and \<^verbatim>\<open>dup_game\<close> build it: dimensions within the
  bounds of \<^verbatim>\<open>validate_params\<close>, one exit per laser, and the two arrays of the
  allocated sizes.\<close>

definition wf_state :: "game_state \<Rightarrow> bool" where
  "wf_state s \<longleftrightarrow>
     2 \<le> w s \<and> w s \<le> 255 \<and> 2 \<le> h s \<and> h s \<le> 255 \<and>
     nlasers s = 2 * (w s + h s) \<and>
     int (length (grid s)) = (w s + 2) * (h s + 2) \<and>
     int (length (exits s)) = nlasers s"

text \<open>The flags of a cell, read through \<open>GRID\<close> as the source reads them.\<close>

definition flag_set :: "uint \<Rightarrow> game_state \<Rightarrow> int \<times> int \<Rightarrow> bool" where
  "flag_set f s c = (case GRID s (fst c) (snd c) of Inl e \<Rightarrow> False | Inr v \<Rightarrow> v AND f \<noteq> 0)"

definition guessed :: "game_state \<Rightarrow> int \<times> int \<Rightarrow> bool" where
  "guessed = flag_set BALL_GUESS"

definition true_ball :: "game_state \<Rightarrow> int \<times> int \<Rightarrow> bool" where
  "true_ball = flag_set BALL_CORRECT"

definition locked :: "game_state \<Rightarrow> int \<times> int \<Rightarrow> bool" where
  "locked = flag_set BALL_LOCK"

text \<open>The cells of the arena, in the order of the loops over it.\<close>

definition arena :: "game_state \<Rightarrow> (int \<times> int) list" where
  "arena s = concat (map (\<lambda>x. map (\<lambda>y. (x, y)) [1..h s]) [1..w s])"

definition guessed_cells :: "game_state \<Rightarrow> (int \<times> int) list" where
  "guessed_cells s = filter (guessed s) (arena s)"

definition true_cells :: "game_state \<Rightarrow> (int \<times> int) list" where
  "true_cells s = filter (true_ball s) (arena s)"

text \<open>The cell that \<^verbatim>\<open>isball\<close> probes: one step ahead, and for a look to the left or
  to the right one more step to that side.\<close>

definition probed_cell :: "int \<Rightarrow> int \<Rightarrow> int \<Rightarrow> look \<Rightarrow> int \<times> int" where
  "probed_cell gx gy direction lookwhere =
     (let (gx, gy) = OFFSET gx gy direction
      in case lookwhere of
           LOOK_LEFT \<Rightarrow> OFFSET gx gy (direction - 1)
         | LOOK_RIGHT \<Rightarrow> OFFSET gx gy (direction + 1)
         | LOOK_FORWARD \<Rightarrow> (gx, gy))"

text \<open>The arena is the region of the cells \<open>(x, y)\<close> with \<open>1 \<le> x \<le> w\<close> and \<open>1 \<le> y \<le> h\<close>.\<close>

definition in_arena :: "game_state \<Rightarrow> int \<times> int \<Rightarrow> bool" where
  "in_arena s c \<longleftrightarrow> 1 \<le> fst c \<and> fst c \<le> w s \<and> 1 \<le> snd c \<and> snd c \<le> h s"

text \<open>The ways in which the loop of \<^verbatim>\<open>fire_laser\<close> can end.\<close>

definition outcome :: "game_state \<Rightarrow> int \<Rightarrow> int \<Rightarrow> int \<Rightarrow> error + game_state \<Rightarrow> bool" where
  "outcome s xs ys i r \<longleftrightarrow>
     (\<exists>e. r = Inl e) \<or> r = mark_hit s xs ys i \<or>
     (\<exists>ex ey j. grid2range s ex ey = Some j \<and> r = back_on_range s xs ys i ex ey)"

text \<open>A ball that a probe can see: a cell of the arena with the ball flag.\<close>

definition sees :: "game_state \<Rightarrow> int \<times> int \<Rightarrow> bool" where
  "sees s c \<longleftrightarrow> in_arena s c \<and> true_ball s c"

text \<open>Two states of the same board: the dimensions, the number of lasers and the sizes
  of the two arrays agree.\<close>

definition same_dims :: "game_state \<Rightarrow> game_state \<Rightarrow> bool" where
  "same_dims s t \<longleftrightarrow> w t = w s \<and> h t = h s \<and> nlasers t = nlasers s \<and>
     length (grid t) = length (grid s) \<and> length (exits t) = length (exits s)"

text \<open>The state \<open>t\<close> is on the board of \<open>s\<close> and holds in every cell of the arena the
  value that \<open>s\<close> holds there.\<close>

definition arena_kept :: "game_state \<Rightarrow> game_state \<Rightarrow> bool" where
  "arena_kept s t \<longleftrightarrow> same_dims s t \<and>
     (\<forall>c \<in> set (arena s). grid t ! nat (GRID_index s (fst c) (snd c)) =
                            grid s ! nat (GRID_index s (fst c) (snd c)))"


subsection \<open>Example states\<close>

text \<open>Three games on a board 3 wide and 2 high, each with one ball: at \<open>(1,1)\<close>, at
  \<open>(3,2)\<close> and at \<open>(3,1)\<close>.\<close>

definition game32_a :: game_state where
  "game32_a = \<lparr>w = 3, h = 2, minballs = 1, maxballs = 1, nballs = 1, nlasers = 10,
     grid = [0, 0, 0, 0,  0, 1, 0, 0,  0, 0, 0, 0,  0, 0, 0, 0,  0, 0, 0, 0],
     exits = replicate 10 LASER_EMPTY,
     done_flag = 0, laserno = 1, nguesses = 0, reveal = 0,
     nright = 0, nwrong = 0, nmissed = 0\<rparr>"

definition game32_a_guessed :: game_state where
  "game32_a_guessed = game32_a\<lparr>
     grid := [0, 0, 0, 0,  0, 3, 0, 0,  0, 0, 0, 0,  0, 0, 0, 0,  0, 0, 0, 0],
     nguesses := 1\<rparr>"

definition game32_b :: game_state where
  "game32_b = game32_a\<lparr>
     grid := [0, 0, 0, 0,  0, 0, 0, 0,  0, 0, 0, 1,  0, 0, 0, 0,  0, 0, 0, 0]\<rparr>"

definition game32_b_fired :: game_state where
  "game32_b_fired = game32_b\<lparr>
     grid := [0, 1, 0, 0,  0, 0, 0, 0,  0, 0, 0, 1,  0, 1, 0, 0,  0, 0, 0, 0],
     exits := [7, LASER_EMPTY, LASER_EMPTY, LASER_EMPTY, LASER_EMPTY,
               LASER_EMPTY, LASER_EMPTY, 0, LASER_EMPTY, LASER_EMPTY],
     laserno := 2\<rparr>"

definition game32_c :: game_state where
  "game32_c = game32_a\<lparr>
     grid := [0, 0, 0, 0,  0, 0, 0, 1,  0, 0, 0, 0,  0, 0, 0, 0,  0, 0, 0, 0]\<rparr>"

text \<open>The board 3 wide and 2 high with its ball at \<open>(2, 2)\<close>.\<close>

definition game32_d :: game_state where
  "game32_d = game32_a\<lparr>
     grid := [0, 0, 0, 0,  0, 0, 0, 0,  0, 0, 1, 0,  0, 0, 0, 0,  0, 0, 0, 0]\<rparr>"

text \<open>A game on the board 2 wide and 4 high with its ball at \<open>(1, 1)\<close>.\<close>

definition game24 :: game_state where
  "game24 = \<lparr>w = 2, h = 4, minballs = 1, maxballs = 1, nballs = 1, nlasers = 12,
     grid = [0, 0, 0, 0, 0, 0,  0, 1, 0, 0, 0, 0,  0, 0, 0, 0, 0, 0,  0, 0, 0, 0, 0, 0],
     exits = replicate 12 LASER_EMPTY,
     done_flag = 0, laserno = 1, nguesses = 0, reveal = 0,
     nright = 0, nwrong = 0, nmissed = 0\<rparr>"

text \<open>A game on the board 5 by 5 with balls at \<open>(1,1)\<close> and \<open>(2,2)\<close>; the same with
  guesses at \<open>(1,1)\<close> and \<open>(3,3)\<close>; and the first with the cell \<open>(1,1)\<close> locked.\<close>

definition game55 :: game_state where
  "game55 = \<lparr>w = 5, h = 5, minballs = 2, maxballs = 2, nballs = 2, nlasers = 20,
     grid = [0, 0, 0, 0, 0, 0, 0,
             0, 1, 0, 0, 0, 0, 0,
             0, 0, 1, 0, 0, 0, 0,
             0, 0, 0, 0, 0, 0, 0,
             0, 0, 0, 0, 0, 0, 0,
             0, 0, 0, 0, 0, 0, 0,
             0, 0, 0, 0, 0, 0, 0],
     exits = replicate 20 LASER_EMPTY,
     done_flag = 0, laserno = 1, nguesses = 0, reveal = 0,
     nright = 0, nwrong = 0, nmissed = 0\<rparr>"

definition game55_guessed :: game_state where
  "game55_guessed = game55\<lparr>
     grid := [0, 0, 0, 0, 0, 0, 0,
              0, 3, 0, 0, 0, 0, 0,
              0, 0, 1, 0, 0, 0, 0,
              0, 0, 0, 2, 0, 0, 0,
              0, 0, 0, 0, 0, 0, 0,
              0, 0, 0, 0, 0, 0, 0,
              0, 0, 0, 0, 0, 0, 0],
     nguesses := 2\<rparr>"

definition game55_locked :: game_state where
  "game55_locked = game55\<lparr>
     grid := [0, 0, 0, 0, 0, 0, 0,
              0, 5, 0, 0, 0, 0, 0,
              0, 0, 1, 0, 0, 0, 0,
              0, 0, 0, 0, 0, 0, 0,
              0, 0, 0, 0, 0, 0, 0,
              0, 0, 0, 0, 0, 0, 0,
              0, 0, 0, 0, 0, 0, 0]\<rparr>"

text \<open>The game 5 by 5 with both of its balls guessed.\<close>

definition game55_right :: game_state where
  "game55_right = game55\<lparr>
     grid := [0, 0, 0, 0, 0, 0, 0,
              0, 3, 0, 0, 0, 0, 0,
              0, 0, 3, 0, 0, 0, 0,
              0, 0, 0, 0, 0, 0, 0,
              0, 0, 0, 0, 0, 0, 0,
              0, 0, 0, 0, 0, 0, 0,
              0, 0, 0, 0, 0, 0, 0],
     nguesses := 2\<rparr>"

text \<open>A game on the board 3 by 3 with balls at \<open>(1,1)\<close> and \<open>(3,3)\<close>; the same with
  guesses at \<open>(1,3)\<close> and \<open>(3,1)\<close>, a layout that no laser tells from the first; and
  the state that the reveal move makes of it.\<close>

definition game33 :: game_state where
  "game33 = \<lparr>w = 3, h = 3, minballs = 2, maxballs = 2, nballs = 2, nlasers = 12,
     grid = [0, 0, 0, 0, 0,
             0, 1, 0, 0, 0,
             0, 0, 0, 0, 0,
             0, 0, 0, 1, 0,
             0, 0, 0, 0, 0],
     exits = replicate 12 LASER_EMPTY,
     done_flag = 0, laserno = 1, nguesses = 0, reveal = 0,
     nright = 0, nwrong = 0, nmissed = 0\<rparr>"

definition game33_guessed :: game_state where
  "game33_guessed = game33\<lparr>
     grid := [0, 0, 0, 0, 0,
              0, 1, 0, 2, 0,
              0, 0, 0, 0, 0,
              0, 2, 0, 1, 0,
              0, 0, 0, 0, 0],
     nguesses := 2\<rparr>"

definition game33_revealed :: game_state where
  "game33_revealed = game33_guessed\<lparr>
     grid := [0, 0, 0, 0, 0,
              0, 0, 0, 3, 0,
              0, 0, 0, 0, 0,
              0, 3, 0, 0, 0,
              0, 0, 0, 0, 0],
     reveal := 1, nright := 2\<rparr>"


text \<open>The state that the reveal move makes of the guessed game.\<close>

definition game55_revealed :: game_state where
  "game55_revealed = game55_guessed\<lparr>
     grid := [0,    0, 0,  3, 6, 0, 0,
              0,    3, 0,  0, 0, 0, 3,
              0,    0, 1,  0, 0, 0, 8192,
              10,   0, 0,  2, 0, 0, 7,
              9,    0, 0,  0, 0, 0, 9,
              0,    0, 0,  0, 0, 0, 0,
              0,   10, 8192, 7, 6, 0, 0],
     exits := [LASER_EMPTY, LASER_EMPTY, 2053, 2059, LASER_EMPTY,
               2050, 10240, 2060, 2064, LASER_EMPTY,
               LASER_EMPTY, 2051, 2055, 10240, 2065,
               LASER_EMPTY, 2056, 2062, LASER_EMPTY, LASER_EMPTY],
     laserno := 11, reveal := 1, nright := 1, nwrong := 1, nmissed := 1\<rparr>"

subsection \<open>Auxiliary notions for the moves in memory\<close>

text \<open>The heap after \<open>dup_game_h\<close> has copied the state at \<open>p\<close>.\<close>

definition dup_heap :: "heap \<Rightarrow> addr \<Rightarrow> heap" where
  "dup_heap H p =
     (let st = the (structs H p);
          ga = the (arrays H (grid_ptr st)); ea = the (arrays H (exits_ptr st));
          gn = (w (members st) + 2) * (h (members st) + 2); en = nlasers (members st)
      in H\<lparr>structs := (structs H)(brk H \<mapsto>
               \<lparr>members = members st, grid_ptr = brk H + 1, exits_ptr = brk H + 2\<rparr>),
            arrays := (arrays H)(brk H + 1 \<mapsto> take (nat gn) ga, brk H + 2 \<mapsto> take (nat en) ea),
            brk := brk H + 3\<rparr>)"

definition rel :: "heap \<Rightarrow> addr \<Rightarrow> move_result_h \<Rightarrow> move_result \<Rightarrow> bool" where
  "rel H1 ret hr vr =
     (case vr of
        None \<Rightarrow> hr = None
      | Some (Inl e) \<Rightarrow> hr = Some (Inl e)
      | Some (Inr None) \<Rightarrow> hr = Some (Inr (free_game_h H1 ret, None))
      | Some (Inr (Some s')) \<Rightarrow> hr = Some (Inr (store H1 ret s', Some ret)))"

text \<open>A heap that holds the game 5 by 5 at the address 0.\<close>

definition heap55 :: heap where
  "heap55 = \<lparr>structs = Map.empty(0 \<mapsto>
               \<lparr>members = game55\<lparr>grid := [], exits := []\<rparr>, grid_ptr = 1, exits_ptr = 2\<rparr>),
            arrays = Map.empty(1 \<mapsto> grid game55, 2 \<mapsto> exits game55),
            brk = 3\<rparr>"

text \<open>A heap that holds the game 2 by 4 at the address 0.\<close>

definition heap24 :: heap where
  "heap24 = \<lparr>structs = Map.empty(0 \<mapsto>
               \<lparr>members = game24\<lparr>grid := [], exits := []\<rparr>, grid_ptr = 1, exits_ptr = 2\<rparr>),
            arrays = Map.empty(1 \<mapsto> grid game24, 2 \<mapsto> exits game24),
            brk = 3\<rparr>"

section \<open>Basic facts\<close>

lemma wf_lengths:
  assumes "wf_state s"
  shows "length (grid s) = nat ((w s + 2) * (h s + 2))" and "length (exits s) = nat (nlasers s)"
proof -
  have "int (length (grid s)) = (w s + 2) * (h s + 2)" "int (length (exits s)) = nlasers s"
    using assms by (simp_all add: wf_state_def)
  then show "length (grid s) = nat ((w s + 2) * (h s + 2))" "length (exits s) = nat (nlasers s)"
    by (metis nat_int)+
qed

lemma wf_nonneg:
  assumes "wf_state s"
  shows "0 \<le> (w s + 2) * (h s + 2)" and "0 \<le> nlasers s"
proof -
  have "int (length (grid s)) = (w s + 2) * (h s + 2)" "int (length (exits s)) = nlasers s"
    using assms by (simp_all add: wf_state_def)
  then show "0 \<le> (w s + 2) * (h s + 2)" "0 \<le> nlasers s"
    by (metis of_nat_0_le_iff)+
qed

lemma dup_game_wf: "wf_state s \<Longrightarrow> dup_game s = Inr s"
  using wf_lengths [of s] wf_nonneg [of s] by (simp add: dup_game_def Let_def)

text \<open>The example states are states of the game: \<^verbatim>\<open>new_game\<close> and moves produce them.\<close>

lemma game32_a_new: "new_game 1 1 [3, 2, 0, 0] = Inr game32_a"
  by code_simp

lemma game32_b_new: "new_game 1 1 [3, 2, 2, 1] = Inr game32_b"
  by code_simp

lemma game32_c_new: "new_game 1 1 [3, 2, 2, 0] = Inr game32_c"
  by code_simp

lemma game32_d_new: "new_game 1 1 [3, 2, 1, 1] = Inr game32_d"
  by code_simp

lemma game24_new: "new_game 1 1 [2, 4, 0, 0] = Inr game24"
  by code_simp

lemma game55_new: "new_game 2 2 [5, 5, 0, 0, 1, 1] = Inr game55"
  by code_simp

lemma game32_a_guessed_reached:
  "execute_move game32_a ''T1,1'' = Some (Inr (Some game32_a_guessed))"
  by code_simp

lemma game32_b_fired_reached:
  "execute_move game32_b ''F0'' = Some (Inr (Some game32_b_fired))"
  by code_simp

lemma game55_guessed_reached:
  "execute_move game55 ''T1,1'' = Some (Inr (Some (game55\<lparr>
     grid := [0, 0, 0, 0, 0, 0, 0,
              0, 3, 0, 0, 0, 0, 0,
              0, 0, 1, 0, 0, 0, 0,
              0, 0, 0, 0, 0, 0, 0,
              0, 0, 0, 0, 0, 0, 0,
              0, 0, 0, 0, 0, 0, 0,
              0, 0, 0, 0, 0, 0, 0],
     nguesses := 1\<rparr>))) \<and>
   execute_move (game55\<lparr>
     grid := [0, 0, 0, 0, 0, 0, 0,
              0, 3, 0, 0, 0, 0, 0,
              0, 0, 1, 0, 0, 0, 0,
              0, 0, 0, 0, 0, 0, 0,
              0, 0, 0, 0, 0, 0, 0,
              0, 0, 0, 0, 0, 0, 0,
              0, 0, 0, 0, 0, 0, 0],
     nguesses := 1\<rparr>) ''T3,3'' = Some (Inr (Some game55_guessed))"
  by code_simp

lemma game33_new: "new_game 2 2 [3, 3, 0, 0, 2, 2] = Inr game33"
  by code_simp

lemma game33_guessed_reached:
  "execute_move game33 ''T1,3'' = Some (Inr (Some (game33\<lparr>
     grid := [0, 0, 0, 0, 0,
              0, 1, 0, 0, 0,
              0, 0, 0, 0, 0,
              0, 2, 0, 1, 0,
              0, 0, 0, 0, 0],
     nguesses := 1\<rparr>))) \<and>
   execute_move (game33\<lparr>
     grid := [0, 0, 0, 0, 0,
              0, 1, 0, 0, 0,
              0, 0, 0, 0, 0,
              0, 2, 0, 1, 0,
              0, 0, 0, 0, 0],
     nguesses := 1\<rparr>) ''T3,1'' = Some (Inr (Some game33_guessed))"
  by code_simp

lemma game55_locked_reached:
  "execute_move game55 ''LB1,1'' = Some (Inr (Some game55_locked))"
  by code_simp

lemma wf_game32_a: "wf_state game32_a"
  by (simp add: wf_state_def game32_a_def)

lemma wf_game55: "wf_state game55"
  by (simp add: wf_state_def game55_def)

lemma wf_game24: "wf_state game24"
  by (simp add: wf_state_def game24_def)

text \<open>A number outside the range of \<^verbatim>\<open>int\<close> is stored with its low 32 bits: the
  index 4294967296 is read as 0, and 4294967297 as 1.\<close>

lemma sscanf_wraps:
  "sscanf_d ''4294967296'' (- 1) = 0 \<and> sscanf_d_d ''4294967297,1'' (- 1, - 1) = (1, 1) \<and>
   sscanf_d ''2147483648'' (- 1) = - 2147483648 \<and>
   execute_move game55 ''F4294967296'' = execute_move game55 ''F0''"
  by code_simp

section \<open>Flags, loops and counts\<close>

lemma correct_iff: "(c :: uint) AND BALL_CORRECT \<noteq> 0 \<longleftrightarrow> bit c 0"
  using bit_iff_and_push_bit_not_eq_0 [of c 0] by (simp add: BALL_CORRECT_def)

lemma guess_iff: "(c :: uint) AND BALL_GUESS \<noteq> 0 \<longleftrightarrow> bit c 1"
  using bit_iff_and_push_bit_not_eq_0 [of c 1] by (simp add: BALL_GUESS_def)

lemma lock_iff: "(c :: uint) AND BALL_LOCK \<noteq> 0 \<longleftrightarrow> bit c 2"
  using bit_iff_and_push_bit_not_eq_0 [of c 2] by (simp add: BALL_LOCK_def)

lemma or_correct: "(c :: uint) OR BALL_CORRECT = set_bit 0 c"
  by (simp add: set_bit_eq_or BALL_CORRECT_def)


lemma or_lock: "(c :: uint) OR BALL_LOCK = set_bit 2 c"
  by (simp add: set_bit_eq_or BALL_LOCK_def)

lemma and_not_correct: "(c :: uint) AND NOT BALL_CORRECT = unset_bit 0 c"
  by (simp add: unset_bit_eq_and_not BALL_CORRECT_def)


lemma and_not_lock: "(c :: uint) AND NOT BALL_LOCK = unset_bit 2 c"
  by (simp add: unset_bit_eq_and_not BALL_LOCK_def)

lemma xor_lock: "(c :: uint) XOR BALL_LOCK = flip_bit 2 c"
  by (simp add: flip_bit_eq_xor BALL_LOCK_def)

lemma and_pow: "(c::uint) AND 2 ^ n = (if bit c n then 2 ^ n else 0)"
  by (rule bit_word_eqI) (auto simp: bit_and_iff bit_exp_iff)

lemma and_mask3:
  "(c :: uint) AND (BALL_GUESS OR BALL_CORRECT) =
     (if bit c 1 then (if bit c 0 then 3 else 2) else (if bit c 0 then 1 else 0))"
proof -
  have three: "(BALL_GUESS OR BALL_CORRECT :: uint) = 2 ^ 1 OR 2 ^ 0"
    by (simp add: BALL_GUESS_def BALL_CORRECT_def)
  have "c AND (2 ^ 1 OR 2 ^ 0) = (c AND 2 ^ 1) OR (c AND 2 ^ 0)"
    by (rule bit.conj_disj_distrib)
  also have "\<dots> = (if bit c 1 then 2 ^ 1 else 0) OR (if bit c 0 then 2 ^ 0 else 0)"
    by (simp only: and_pow)
  also have "\<dots> = (if bit c 1 then (if bit c 0 then 3 else 2) else (if bit c 0 then 1 else 0))"
    by simp
  finally show ?thesis
    by (simp only: three)
qed

lemma mask3_val: "BALL_GUESS OR BALL_CORRECT = (3 :: uint)"
  by (simp add: BALL_GUESS_def BALL_CORRECT_def)


lemma seq_Inr_iff: "seq m f = Inr r \<longleftrightarrow> (\<exists>v. m = Inr v \<and> f v = Inr r)"
  by (cases m) (simp_all add: seq_def)

lemma for_each_append: "for_each (as @ bs) f s = seq (for_each as f s) (for_each bs f)"
  by (induction as arbitrary: s) (auto simp: seq_def split: sum.splits)

lemma for_each_map_s: "for_each (map g xs) f s = for_each xs (\<lambda>a. f (g a)) s"
  by (induction xs arbitrary: s) (auto split: sum.splits)

lemma for_each_map: "for_each (map g xs) f = for_each xs (\<lambda>a. f (g a))"
  by (rule ext) (rule for_each_map_s)

lemma for_each_concat: "for_each (concat xss) f s = for_each xss (\<lambda>xs. for_each xs f) s"
  by (induction xss arbitrary: s) (auto simp: for_each_append seq_def split: sum.splits)

lemma for_arena_flat:
  "for_arena dims body s = for_each (arena dims) (\<lambda>c. body (fst c) (snd c)) s"
  by (simp add: for_arena_def arena_def for_each_concat for_each_map)

lemma for_each_invariant:
  assumes "for_each xs f s = Inr s'" and "P pre s"
    and "\<And>done a t t'. P done t \<Longrightarrow> f a t = Inr t' \<Longrightarrow> P (done @ [a]) t'"
  shows "P (pre @ xs) s'"
  using assms(1,2)
proof (induction xs arbitrary: pre s)
  case Nil
  then show ?case by simp
next
  case (Cons a xs)
  from Cons.prems(1) obtain t where t: "f a s = Inr t" and rest: "for_each xs f t = Inr s'"
    by (auto split: sum.splits)
  have "P (pre @ [a]) t"
    using assms(3) [OF Cons.prems(2) t] .
  from Cons.IH [OF rest this] show ?case by simp
qed

lemma for_each_inv_mem:
  assumes "for_each xs f s = Inr s'" and "I s" and "set xs \<subseteq> A"
    and step: "\<And>a t t'. a \<in> A \<Longrightarrow> I t \<Longrightarrow> f a t = Inr t' \<Longrightarrow> I t'"
  shows "I s'"
  using assms(1,2,3)
proof (induction xs arbitrary: s)
  case Nil
  then show ?case by simp
next
  case (Cons a xs)
  from Cons.prems(1) obtain t where t: "f a s = Inr t" and rest: "for_each xs f t = Inr s'"
    by (auto split: sum.splits)
  have "a \<in> A" "set xs \<subseteq> A"
    using Cons.prems(3) by simp_all
  then show ?case
    using Cons.IH [OF rest] step [OF _ Cons.prems(2) t] by blast
qed

lemma for_each_reaches:
  assumes "for_each xs f s = Inr s'" and "I s" and "set xs \<subseteq> A"
    and "a \<in> set xs"
    and step: "\<And>a t t'. a \<in> A \<Longrightarrow> I t \<Longrightarrow> f a t = Inr t' \<Longrightarrow> I t'"
  shows "\<exists>t t'. I t \<and> f a t = Inr t'"
  using assms(1,2,3,4)
proof (induction xs arbitrary: s)
  case Nil
  then show ?case by simp
next
  case (Cons b xs)
  from Cons.prems(1) obtain t where t: "f b s = Inr t" and rest: "for_each xs f t = Inr s'"
    by (auto split: sum.splits)
  have sub: "b \<in> A" "set xs \<subseteq> A"
    using Cons.prems(3) by simp_all
  show ?case
  proof (cases "a = b")
    case True
    then show ?thesis using Cons.prems(2) t by blast
  next
    case False
    then have m: "a \<in> set xs" using Cons.prems(4) by simp
    have "I t"
      using step [OF sub(1) Cons.prems(2) t] .
    then show ?thesis
      using Cons.IH [OF rest _ sub(2) m] by blast
  qed
qed

lemma for_each_d_inv:
  assumes "for_each_d xs f s = Some (Inr s')" and "I s" and "set xs \<subseteq> A"
    and step: "\<And>a t t'. a \<in> A \<Longrightarrow> I t \<Longrightarrow> f a t = Some (Inr t') \<Longrightarrow> I t'"
  shows "I s'"
  using assms(1,2,3)
proof (induction xs arbitrary: s)
  case Nil
  then show ?case by simp
next
  case (Cons a xs)
  from Cons.prems(1) obtain t where t: "f a s = Some (Inr t)"
    and rest: "for_each_d xs f t = Some (Inr s')"
    by (auto split: sum.splits option.splits)
  have "a \<in> A" "set xs \<subseteq> A"
    using Cons.prems(3) by simp_all
  then show ?case
    using Cons.IH [OF rest] step [OF _ Cons.prems(2) t] by blast
qed

lemma for_each_d_reaches:
  assumes "for_each_d xs f s = Some (Inr s')" and "I s" and "set xs \<subseteq> A"
    and "a \<in> set xs"
    and step: "\<And>a t t'. a \<in> A \<Longrightarrow> I t \<Longrightarrow> f a t = Some (Inr t') \<Longrightarrow> I t'"
  shows "\<exists>t t'. I t \<and> f a t = Some (Inr t')"
  using assms(1,2,3,4)
proof (induction xs arbitrary: s)
  case Nil
  then show ?case by simp
next
  case (Cons b xs)
  from Cons.prems(1) obtain t where t: "f b s = Some (Inr t)"
    and rest: "for_each_d xs f t = Some (Inr s')"
    by (auto split: sum.splits option.splits)
  have sub: "b \<in> A" "set xs \<subseteq> A"
    using Cons.prems(3) by simp_all
  show ?case
  proof (cases "a = b")
    case True
    then show ?thesis using Cons.prems(2) t by blast
  next
    case False
    then have m: "a \<in> set xs" using Cons.prems(4) by simp
    have "I t"
      using step [OF sub(1) Cons.prems(2) t] .
    then show ?thesis
      using Cons.IH [OF rest _ sub(2) m] by blast
  qed
qed

lemma for_each_invariant_mem:
  assumes "for_each xs f s = Inr s'" and "P pre s" and "set xs \<subseteq> A"
    and step: "\<And>dn a t t'. a \<in> A \<Longrightarrow> P dn t \<Longrightarrow> f a t = Inr t' \<Longrightarrow> P (dn @ [a]) t'"
  shows "P (pre @ xs) s'"
  using assms(1,2,3)
proof (induction xs arbitrary: pre s)
  case Nil
  then show ?case by simp
next
  case (Cons a xs)
  from Cons.prems(1) obtain t where t: "f a s = Inr t" and rest: "for_each xs f t = Inr s'"
    by (auto split: sum.splits)
  have sub: "a \<in> A" "set xs \<subseteq> A"
    using Cons.prems(3) by simp_all
  have "P (pre @ [a]) t"
    using step [OF sub(1) Cons.prems(2) t] .
  from Cons.IH [OF rest this sub(2)] show ?case by simp
qed

lemma set_arena: "set (arena s) = {(x, y). 1 \<le> x \<and> x \<le> w s \<and> 1 \<le> y \<and> y \<le> h s}"
  by (auto simp: arena_def)

lemma distinct_arena: "distinct (arena s)"
proof -
  have "arena s = List.product [1..w s] [1..h s]"
    by (simp add: arena_def product_concat_map)
  then show ?thesis
    by (simp add: distinct_product)
qed

lemma flag_set_cong: "grid t = grid s \<Longrightarrow> h t = h s \<Longrightarrow> flag_set f t = flag_set f s"
  by (rule ext) (simp add: flag_set_def GRID_def GRID_index_def)


lemma and3:
  "(c :: uint) AND 3 = (if bit c 1 then (if bit c 0 then 3 else 2) else (if bit c 0 then 1 else 0))"
  using and_mask3 [of c] by (simp only: mask3_val)

lemma count_cell_unfold:
  assumes "GRID st x y = Inr c"
  shows "count_cell x y st =
      (if c AND 3 = 3 then Inr (st\<lparr>nright := nright st + 1\<rparr>)
       else if c AND 3 = 2 then Inr (st\<lparr>nwrong := nwrong st + 1\<rparr>)
       else if c AND 3 = 1 then Inr (st\<lparr>nmissed := nmissed st + 1\<rparr>)
       else Inr st)"
  unfolding count_cell_def seq_def Let_def mask3_val assms BALL_GUESS_def BALL_CORRECT_def
  by simp


lemma count_cell_cases:
  assumes "GRID st x y = Inr c"
  shows "count_cell x y st =
     Inr (if bit c 1 \<and> bit c 0 then st\<lparr>nright := nright st + 1\<rparr>
          else if bit c 1 then st\<lparr>nwrong := nwrong st + 1\<rparr>
          else if bit c 0 then st\<lparr>nmissed := nmissed st + 1\<rparr>
          else st)"
proof (cases "bit c 1")
  case True
  note b1 = this
  show ?thesis
  proof (cases "bit c 0")
    case True
    then have "c AND 3 = 3" using b1 by (simp add: and3)
    then show ?thesis using b1 True by (simp add: count_cell_unfold [OF assms])
  next
    case False
    then have "c AND 3 = 2" using b1 by (simp add: and3)
    then show ?thesis using b1 False by (simp add: count_cell_unfold [OF assms])
  qed
next
  case False
  note b1 = this
  show ?thesis
  proof (cases "bit c 0")
    case True
    then have "c AND 3 = 1" using b1 by (simp add: and3)
    then show ?thesis using b1 True by (simp add: count_cell_unfold [OF assms])
  next
    case False
    then have "c AND 3 = 0" using b1 by (simp add: and3)
    then show ?thesis using b1 False by (simp add: count_cell_unfold [OF assms])
  qed
qed

lemma count_cell_effect:
  assumes "count_cell x y st = Inr t"
  shows "grid t = grid st \<and> h t = h st \<and> w t = w st \<and>
         nright t = nright st + (if guessed st (x, y) \<and> true_ball st (x, y) then 1 else 0) \<and>
         nwrong t = nwrong st + (if guessed st (x, y) \<and> \<not> true_ball st (x, y) then 1 else 0) \<and>
         nmissed t = nmissed st + (if true_ball st (x, y) \<and> \<not> guessed st (x, y) then 1 else 0)"
proof -
  from assms obtain c where c: "GRID st x y = Inr c"
    by (auto simp: count_cell_def seq_Inr_iff)
  have g: "guessed st (x, y) = bit c 1" and t: "true_ball st (x, y) = bit c 0"
    using c by (simp_all add: guessed_def true_ball_def flag_set_def guess_iff correct_iff)
  have "t = (if bit c 1 \<and> bit c 0 then st\<lparr>nright := nright st + 1\<rparr>
          else if bit c 1 then st\<lparr>nwrong := nwrong st + 1\<rparr>
          else if bit c 0 then st\<lparr>nmissed := nmissed st + 1\<rparr>
          else st)"
    using assms count_cell_cases [OF c] by simp
  then show ?thesis
    unfolding g t by simp
qed

lemma count_loop:
  assumes "for_each cs (\<lambda>c. count_cell (fst c) (snd c)) st = Inr t"
  shows "grid t = grid st \<and> h t = h st \<and> w t = w st \<and>
         nright t = nright st + int (length (filter (\<lambda>c. guessed st c \<and> true_ball st c) cs)) \<and>
         nwrong t = nwrong st + int (length (filter (\<lambda>c. guessed st c \<and> \<not> true_ball st c) cs)) \<and>
         nmissed t = nmissed st + int (length (filter (\<lambda>c. true_ball st c \<and> \<not> guessed st c) cs))"
  using assms
proof (induction cs arbitrary: st)
  case Nil
  then show ?case by simp
next
  case (Cons c cs)
  from Cons.prems obtain u where u: "count_cell (fst c) (snd c) st = Inr u"
    and rest: "for_each cs (\<lambda>c. count_cell (fst c) (snd c)) u = Inr t"
    by (auto split: sum.splits)
  have e: "grid u = grid st" "h u = h st" "w u = w st"
      "nright u = nright st + (if guessed st c \<and> true_ball st c then 1 else 0)"
      "nwrong u = nwrong st + (if guessed st c \<and> \<not> true_ball st c then 1 else 0)"
      "nmissed u = nmissed st + (if true_ball st c \<and> \<not> guessed st c then 1 else 0)"
    using count_cell_effect [OF u] by simp_all
  have gu: "guessed u = guessed st" and tu: "true_ball u = true_ball st"
    unfolding guessed_def true_ball_def by (rule flag_set_cong [OF e(1,2)])+
  have ih: "grid t = grid u" "h t = h u" "w t = w u"
      "nright t = nright u + int (length (filter (\<lambda>c. guessed st c \<and> true_ball st c) cs))"
      "nwrong t = nwrong u + int (length (filter (\<lambda>c. guessed st c \<and> \<not> true_ball st c) cs))"
      "nmissed t = nmissed u + int (length (filter (\<lambda>c. true_ball st c \<and> \<not> guessed st c) cs))"
    using Cons.IH [OF rest] unfolding gu tu by simp_all
  show ?case
    unfolding ih e by simp
qed

lemma length_filter_card:
  assumes "distinct xs"
  shows "length (filter P xs) = card {c \<in> set xs. P c}"
proof -
  have "card (set (filter P xs)) = length (filter P xs)"
    by (rule distinct_card) (simp add: assms)
  then show ?thesis
    by (simp only: set_filter)
qed

lemma fill_counts_effect:
  assumes "fill_counts st = Inr t"
  shows "grid t = grid st \<and> h t = h st \<and> w t = w st \<and>
         nright t = int (card {c \<in> set (arena t). guessed t c \<and> true_ball t c}) \<and>
         nwrong t = int (card {c \<in> set (arena t). guessed t c \<and> \<not> true_ball t c}) \<and>
         nmissed t = int (card {c \<in> set (arena t). true_ball t c \<and> \<not> guessed t c})"
proof -
  let ?z = "st\<lparr>nright := 0, nwrong := 0, nmissed := 0\<rparr>"
  have loop: "for_each (arena ?z) (\<lambda>c. count_cell (fst c) (snd c)) ?z = Inr t"
    using assms by (simp add: fill_counts_def for_arena_flat arena_def)
  have e: "grid t = grid ?z" "h t = h ?z" "w t = w ?z"
      "nright t = int (length (filter (\<lambda>c. guessed ?z c \<and> true_ball ?z c) (arena ?z)))"
      "nwrong t = int (length (filter (\<lambda>c. guessed ?z c \<and> \<not> true_ball ?z c) (arena ?z)))"
      "nmissed t = int (length (filter (\<lambda>c. true_ball ?z c \<and> \<not> guessed ?z c) (arena ?z)))"
    using count_loop [OF loop] by simp_all
  have gz: "guessed ?z = guessed t" and tz: "true_ball ?z = true_ball t"
    unfolding guessed_def true_ball_def by (rule flag_set_cong [OF e(1,2), symmetric])+
  have a: "arena ?z = arena t"
    using e(2,3) by (simp add: arena_def)
  show ?thesis
    using e(1,2,3) unfolding e(4,5,6) gz tz a length_filter_card [OF distinct_arena]
    by simp
qed

lemma GRID_set_Inr:
  "GRID_set t x y v = Inr t' \<longleftrightarrow>
     0 \<le> GRID_index t x y \<and> GRID_index t x y < int (length (grid t)) \<and>
     t' = t\<lparr>grid := (grid t)[nat (GRID_index t x y) := v]\<rparr>"
  by (auto simp: GRID_set_def wr_def)

lemma GRID_Inr:
  "GRID t x y = Inr v \<longleftrightarrow>
     0 \<le> GRID_index t x y \<and> GRID_index t x y < int (length (grid t)) \<and>
     v = grid t ! nat (GRID_index t x y)"
  by (auto simp: GRID_def rd_def)

lemma flag_set_update:
  assumes "0 \<le> GRID_index t x y" and "GRID_index t x y < int (length (grid t))"
  shows "flag_set f (t\<lparr>grid := (grid t)[nat (GRID_index t x y) := v]\<rparr>) c =
     (if GRID_index t (fst c) (snd c) = GRID_index t x y then v AND f \<noteq> 0 else flag_set f t c)"
  using assms
  by (auto simp: flag_set_def GRID_def rd_def GRID_index_def nth_list_update nat_eq_iff)

lemma execute_move_reveal:
  assumes "wf_state s" and "execute_move s (CHR ''R'' # rest) = Some (Inr (Some s'))"
  shows "\<exists>ret st. check_guesses s = Some (Inr (ret, st)) \<and> s' = st\<lparr>reveal := 1\<rparr>"
  using assms
  by (auto simp: execute_move_def dup_game_wf badmove_def
      split: if_splits option.splits sum.splits prod.splits)



section \<open>Moves in memory follow the moves on values\<close>

lemma load_SomeD:
  assumes "load H p = Some s"
  obtains st ga ea where "structs H p = Some st" and "arrays H (grid_ptr st) = Some ga"
    and "arrays H (exits_ptr st) = Some ea" and "s = (members st)\<lparr>grid := ga, exits := ea\<rparr>"
  using assms by (auto simp: load_def split: option.splits)

lemma dup_game_h_Inl:
  assumes "load H p = Some s" and "dup_game s = Inl e"
  shows "dup_game_h H p = Inl e"
proof -
  from assms(1) obtain st ga ea where f: "structs H p = Some st"
    "arrays H (grid_ptr st) = Some ga" "arrays H (exits_ptr st) = Some ea"
    "s = (members st)\<lparr>grid := ga, exits := ea\<rparr>"
    by (rule load_SomeD)
  show ?thesis
    using assms(2) f by (simp add: dup_game_h_def dup_game_def Let_def split: if_splits)
qed

lemma dup_game_h_Inr:
  assumes "load H p = Some s" and "dup_game s = Inr s1"
  shows "dup_game_h H p = Inr (dup_heap H p, brk H)"
proof -
  from assms(1) obtain st ga ea where f: "structs H p = Some st"
    "arrays H (grid_ptr st) = Some ga" "arrays H (exits_ptr st) = Some ea"
    "s = (members st)\<lparr>grid := ga, exits := ea\<rparr>"
    by (rule load_SomeD)
  show ?thesis
    using assms(2) f
    by (simp add: dup_game_h_def dup_game_def dup_heap_def Let_def split: if_splits)
qed

lemma load_dup_heap_new:
  assumes "load H p = Some s" and "dup_game s = Inr s1"
  shows "load (dup_heap H p) (brk H) = Some s1"
proof -
  from assms(1) obtain st ga ea where f: "structs H p = Some st"
    "arrays H (grid_ptr st) = Some ga" "arrays H (exits_ptr st) = Some ea"
    "s = (members st)\<lparr>grid := ga, exits := ea\<rparr>"
    by (rule load_SomeD)
  show ?thesis
    using assms(2) f
    by (auto simp: load_def dup_game_def dup_heap_def Let_def split: if_splits)
qed

lemma load_dup_heap_old:
  assumes "heap_ok H" and "load H p = Some s"
  shows "load (dup_heap H p) p = Some s"
proof -
  from assms(2) obtain st ga ea where f: "structs H p = Some st"
    "arrays H (grid_ptr st) = Some ga" "arrays H (exits_ptr st) = Some ea"
    "s = (members st)\<lparr>grid := ga, exits := ea\<rparr>"
    by (rule load_SomeD)
  have "p < brk H" "grid_ptr st < brk H" "exits_ptr st < brk H"
    using assms(1) f(1) by (auto simp: heap_ok_def)
  then show ?thesis
    using f by (simp add: load_def dup_heap_def Let_def)
qed


lemma rel_badmove: "rel H1 ret (badmove_h H1 ret) badmove"
  by (simp add: rel_def badmove_h_def badmove_def)

lemma rel_on_state:
  assumes "load H1 ret = Some s1"
  shows "rel H1 ret (moved_h ret (on_state H1 ret f))
           (case f s1 of None \<Rightarrow> None | Some r \<Rightarrow> moved r)"
proof (cases "f s1")
  case None
  then show ?thesis
    by (simp add: rel_def moved_h_def on_state_def assms)
next
  case (Some r)
  then show ?thesis
    by (cases r) (simp_all add: rel_def moved_h_def moved_def on_state_def assms)
qed

lemma rel_moved:
  assumes "load H1 ret = Some s1"
  shows "rel H1 ret (moved_h ret (on_state H1 ret (\<lambda>r. Some (g r)))) (moved (g s1))"
  using rel_on_state [OF assms, of "\<lambda>r. Some (g r)"] by simp

lemma rel_S:
  assumes "load H1 ret = Some s1"
  shows "rel H1 ret (moved_h ret (on_state H1 ret (\<lambda>r. Some (Inr (r\<lparr>reveal := 1\<rparr>)))))
           (Some (Inr (Some (s1\<lparr>reveal := 1\<rparr>))))"
  using rel_on_state [OF assms, of "\<lambda>r. Some (Inr (r\<lparr>reveal := 1\<rparr>))"] by (simp add: moved_def)

lemma rel_reveal:
  assumes "load H1 ret = Some s1"
  shows "rel H1 ret (moved_h ret (on_state H1 ret reveal_checked))
           (case check_guesses s1 of
              None \<Rightarrow> None
            | Some (Inl e) \<Rightarrow> Some (Inl e)
            | Some (Inr (consistent, r)) \<Rightarrow> Some (Inr (Some (r\<lparr>reveal := 1\<rparr>))))"
proof -
  have "(case reveal_checked s1 of None \<Rightarrow> None | Some r \<Rightarrow> moved r) =
        (case check_guesses s1 of
              None \<Rightarrow> None
            | Some (Inl e) \<Rightarrow> Some (Inl e)
            | Some (Inr (consistent, r)) \<Rightarrow> Some (Inr (Some (r\<lparr>reveal := 1\<rparr>))))"
    by (simp add: reveal_checked_def moved_def split: option.splits sum.splits prod.splits)
  then show ?thesis
    using rel_on_state [OF assms, of reveal_checked] by simp
qed

lemma rel_error: "rel H1 ret (Some (Inl e)) (Some (Inl e))"
  by (simp add: rel_def)

lemma execute_move_h_rel:
  assumes "heap_ok H" and "load H p = Some s" and "dup_game s = Inr s1"
  shows "rel (dup_heap H p) (brk H) (execute_move_h H p move) (execute_move s move)"
proof -
  note new = load_dup_heap_new [OF assms(2,3)]
  note old = load_dup_heap_old [OF assms(1,2)]
  note r = rel_badmove rel_error rel_moved [OF new] rel_S [OF new] rel_reveal [OF new]
    rel_on_state [OF new]
  note d = execute_move_h_def execute_move_def dup_game_h_Inr [OF assms(2,3)] assms(3) new old
  consider (solve) "move = ''S''"
    | (revealed) "move \<noteq> ''S''" "reveal s \<noteq> 0"
    | (empty) "move \<noteq> ''S''" "reveal s = 0" "move = []"
    | (T) "move \<noteq> ''S''" "reveal s = 0" "move \<noteq> []" "hd move = CHR ''T''"
    | (F) "move \<noteq> ''S''" "reveal s = 0" "move \<noteq> []" "hd move = CHR ''F''"
    | (R) "move \<noteq> ''S''" "reveal s = 0" "move \<noteq> []" "hd move = CHR ''R''"
    | (L) "move \<noteq> ''S''" "reveal s = 0" "move \<noteq> []" "hd move = CHR ''L''"
    | (other) "move \<noteq> ''S''" "reveal s = 0" "move \<noteq> []" "hd move \<noteq> CHR ''T''"
        "hd move \<noteq> CHR ''F''" "hd move \<noteq> CHR ''R''" "hd move \<noteq> CHR ''L''"
    by blast
  then show ?thesis
  proof cases
    case solve
    then show ?thesis by (simp add: d r)
  next
    case revealed
    then show ?thesis by (simp add: d r)
  next
    case empty
    then show ?thesis by (simp add: d r)
  next
    case T
    then show ?thesis by (auto simp: d r split: prod.splits intro!: r)
  next
    case F
    let ?n = "sscanf_d (drop 1 move) (- 1)"
    show ?thesis
    proof (cases "exits_get s1 ?n")
      case (Inl e)
      then show ?thesis using F by (simp add: d r Let_def)
    next
      case (Inr v)
      show ?thesis
      proof (cases "v = LASER_EMPTY")
        case False
        then show ?thesis using F Inr by (simp add: d r Let_def)
      next
        case True
        show ?thesis
        proof (cases "range2grid s1 ?n")
          case None
          then show ?thesis using F Inr True by (simp add: d r Let_def)
        next
          case (Some t)
          obtain gx gy dir where t: "t = (gx, gy, dir)"
            by (cases t)
          show ?thesis
            using F Inr True Some t rel_on_state [OF new, of "\<lambda>r. fire_laser r gx gy dir"]
            by (simp add: d Let_def)
        qed
      qed
    qed
  next
    case R
    then show ?thesis by (simp add: d r)
  next
    case L
    consider (short) "length move < 2"
      | (B) "\<not> length move < 2" "move ! 1 = CHR ''B''"
      | (C) "\<not> length move < 2" "move ! 1 = CHR ''C''"
      | (Rw) "\<not> length move < 2" "move ! 1 = CHR ''R''"
      | (bad) "\<not> length move < 2" "move ! 1 \<noteq> CHR ''B''" "move ! 1 \<noteq> CHR ''C''"
          "move ! 1 \<noteq> CHR ''R''"
      by blast
    then show ?thesis
    proof cases
      case short
      then show ?thesis using L by (simp add: d r)
    next
      case B
      then show ?thesis using L by (auto simp: d r split: prod.splits intro!: r)
    next
      case C
      then show ?thesis using L by (auto simp: d r Let_def intro!: r)
    next
      case Rw
      then show ?thesis using L by (auto simp: d r Let_def intro!: r)
    next
      case bad
      then show ?thesis using L by (simp add: d r)
    qed
  next
    case other
    then show ?thesis by (simp add: d r)
  qed
qed


lemma heap_ok_fresh:
  assumes "heap_ok H" and "brk H \<le> a"
  shows "structs H a = None" and "arrays H a = None"
proof -
  show "structs H a = None"
  proof (cases "structs H a")
    case (Some st)
    then have "a < brk H" using assms(1) by (auto simp: heap_ok_def)
    then show ?thesis using assms(2) by simp
  qed simp
  show "arrays H a = None"
  proof (cases "arrays H a")
    case (Some x)
    then have "a < brk H" using assms(1) by (auto simp: heap_ok_def)
    then show ?thesis using assms(2) by simp
  qed simp
qed

lemma dup_heap_frame:
  assumes "a < brk H"
  shows "structs (dup_heap H p) a = structs H a" and "arrays (dup_heap H p) a = arrays H a"
  using assms by (simp_all add: dup_heap_def Let_def)

lemma dup_heap_new_struct:
  "structs (dup_heap H p) (brk H) =
     Some \<lparr>members = members (the (structs H p)), grid_ptr = brk H + 1, exits_ptr = brk H + 2\<rparr>"
  by (simp add: dup_heap_def Let_def)

lemma store_dup_frame:
  assumes "a < brk H"
  shows "structs (store (dup_heap H p) (brk H) s') a = structs H a"
    and "arrays (store (dup_heap H p) (brk H) s') a = arrays H a"
  using assms by (simp_all add: store_def dup_heap_new_struct dup_heap_frame)

lemma load_store_dup:
  "load (store (dup_heap H p) (brk H) s') (brk H) = Some s'"
  by (simp add: load_def store_def dup_heap_new_struct)

lemma free_dup:
  assumes "heap_ok H"
  shows "structs (free_game_h (dup_heap H p) (brk H)) = structs H"
    and "arrays (free_game_h (dup_heap H p) (brk H)) = arrays H"
proof -
  have n: "structs H (brk H) = None" "arrays H (brk H + 1) = None" "arrays H (brk H + 2) = None"
    using heap_ok_fresh [OF assms] by simp_all
  show "structs (free_game_h (dup_heap H p) (brk H)) = structs H"
    using n by (auto simp: free_game_h_def dup_heap_new_struct dup_heap_def Let_def)
  show "arrays (free_game_h (dup_heap H p) (brk H)) = arrays H"
    using n by (auto simp: free_game_h_def dup_heap_new_struct dup_heap_def Let_def)
qed

lemma load_frame:
  assumes "heap_ok H" and "load H p = Some s"
    and "\<forall>a<brk H. structs H' a = structs H a \<and> arrays H' a = arrays H a"
  shows "load H' p = Some s"
proof -
  from assms(2) obtain st ga ea where f: "structs H p = Some st"
    "arrays H (grid_ptr st) = Some ga" "arrays H (exits_ptr st) = Some ea"
    "s = (members st)\<lparr>grid := ga, exits := ea\<rparr>"
    by (rule load_SomeD)
  have "p < brk H" "grid_ptr st < brk H" "exits_ptr st < brk H"
    using assms(1) f(1) by (auto simp: heap_ok_def)
  then show ?thesis
    using f assms(3) by (simp add: load_def)
qed

text \<open>When \<^verbatim>\<open>execute_move\<close> returns, every struct and every array that was allocated
  before the call is as it was, so the state at \<open>from\<close> still has its value; a rejected
  move returns the null pointer and leaves the allocated memory as it was (the duplicate
  is freed); an accepted move returns the address of a struct that did not exist before
  the call, and its value is the one the move yields on values.\<close>

lemma execute_move_h_frame:
  assumes "heap_ok H" and "load H from = Some s"
    and "execute_move_h H from move = Some (Inr (H', r))"
  shows "(\<forall>a<brk H. structs H' a = structs H a \<and> arrays H' a = arrays H a) \<and>
         load H' from = Some s \<and>
         (case r of
            None \<Rightarrow> structs H' = structs H \<and> arrays H' = arrays H \<and>
                     execute_move s move = Some (Inr None)
          | Some ret \<Rightarrow> ret = brk H \<and> structs H ret = None \<and>
                     (\<exists>s'. load H' ret = Some s' \<and>
                           execute_move s move = Some (Inr (Some s'))))"
proof (cases "dup_game s")
  case (Inl e)
  then have "execute_move_h H from move = Some (Inl e)"
    using dup_game_h_Inl [OF assms(2)] by (simp add: execute_move_h_def)
  then show ?thesis using assms(3) by simp
next
  case (Inr s1)
  let ?H1 = "dup_heap H from"
  note sim = execute_move_h_rel [OF assms(1,2) Inr, of move]
  have fresh: "structs H (brk H) = None"
    using heap_ok_fresh [OF assms(1)] by simp
  consider (bad) "execute_move s move = Some (Inr None)" "H' = free_game_h ?H1 (brk H)" "r = None"
    | (ok) s' where "execute_move s move = Some (Inr (Some s'))" "H' = store ?H1 (brk H) s'"
        "r = Some (brk H)"
    using sim assms(3) by (auto simp: rel_def split: option.splits sum.splits)
  then show ?thesis
  proof cases
    case bad
    have eq: "structs H' = structs H" "arrays H' = arrays H"
      using free_dup [OF assms(1)] bad(2) by simp_all
    then have fr: "\<forall>a<brk H. structs H' a = structs H a \<and> arrays H' a = arrays H a"
      by simp
    show ?thesis
      using fr load_frame [OF assms(1,2) fr] eq bad(1,3) by simp
  next
    case ok
    have fr: "\<forall>a<brk H. structs H' a = structs H a \<and> arrays H' a = arrays H a"
      using store_dup_frame ok(2) by simp
    have "load H' (brk H) = Some s'"
      using load_store_dup ok(2) by simp
    then show ?thesis
      using fr load_frame [OF assms(1,2) fr] ok(1,3) fresh by simp
  qed
qed

lemma execute_move_h_frame_example:
  "heap_ok heap55 \<and> load heap55 0 = Some game55 \<and>
   (\<exists>H'. execute_move_h heap55 0 ''T1,1'' = Some (Inr (H', Some 3)) \<and>
         load H' 0 = Some game55 \<and>
         load H' 3 = Some (game55\<lparr>
           grid := [0, 0, 0, 0, 0, 0, 0,
                    0, 3, 0, 0, 0, 0, 0,
                    0, 0, 1, 0, 0, 0, 0,
                    0, 0, 0, 0, 0, 0, 0,
                    0, 0, 0, 0, 0, 0, 0,
                    0, 0, 0, 0, 0, 0, 0,
                    0, 0, 0, 0, 0, 0, 0],
           nguesses := 1\<rparr>)) \<and>
   (\<exists>H'. execute_move_h heap55 0 ''X'' = Some (Inr (H', None)) \<and>
         load H' 0 = Some game55 \<and> structs H' = structs heap55 \<and> arrays H' = arrays heap55)"
proof -
  let ?s' = "game55\<lparr>
           grid := [0, 0, 0, 0, 0, 0, 0,
                    0, 3, 0, 0, 0, 0, 0,
                    0, 0, 1, 0, 0, 0, 0,
                    0, 0, 0, 0, 0, 0, 0,
                    0, 0, 0, 0, 0, 0, 0,
                    0, 0, 0, 0, 0, 0, 0,
                    0, 0, 0, 0, 0, 0, 0],
           nguesses := 1\<rparr>"
  have ok: "heap_ok heap55"
    by (auto simp: heap_ok_def heap55_def split: if_splits)
  have ld: "load heap55 0 = Some game55"
    by (simp add: load_def heap55_def game55_def)
  have dup: "dup_game game55 = Inr game55"
    by (rule dup_game_wf [OF wf_game55])
  have b: "brk heap55 = 3"
    by (simp add: heap55_def)
  have v1: "execute_move game55 ''T1,1'' = Some (Inr (Some ?s'))"
    by code_simp
  have v2: "execute_move game55 ''X'' = Some (Inr None)"
    by code_simp
  have h1: "execute_move_h heap55 0 ''T1,1'' = Some (Inr (store (dup_heap heap55 0) 3 ?s', Some 3))"
    using execute_move_h_rel [OF ok ld dup, of "''T1,1''"] by (simp add: rel_def v1 b)
  have h2: "execute_move_h heap55 0 ''X'' = Some (Inr (free_game_h (dup_heap heap55 0) 3, None))"
    using execute_move_h_rel [OF ok ld dup, of "''X''"] by (simp add: rel_def v2 b)
  have w1: "load (store (dup_heap heap55 0) 3 ?s') 0 = Some game55 \<and>
            load (store (dup_heap heap55 0) 3 ?s') 3 = Some ?s'"
    using execute_move_h_frame [OF ok ld h1] by (simp add: v1)
  have w2: "load (free_game_h (dup_heap heap55 0) 3) 0 = Some game55 \<and>
            structs (free_game_h (dup_heap heap55 0) 3) = structs heap55 \<and>
            arrays (free_game_h (dup_heap heap55 0) 3) = arrays heap55"
    using execute_move_h_frame [OF ok ld h2] by simp
  show ?thesis
    using ok ld h1 h2 w1 w2 by blast
qed

section \<open>The coordinate mappers, the probe and the ray on square boards\<close>

lemma round_trip_not_wider:
  assumes "0 \<le> w s" and "w s \<le> h s" and "range2grid s i = Some (x, y, d)"
  shows "grid2range s x y = Some i"
  using assms
  by (auto simp: range2grid_def grid2range_def Let_def split: if_splits)

lemma round_trip_fails_wider:
  assumes "0 < h s" and "h s < w s"
  shows "range2grid s (w s) = Some (w s + 1, 1, DIR_LEFT) \<and> grid2range s (w s + 1) 1 = None"
  using assms by (simp add: range2grid_def grid2range_def Let_def)

lemma grid2range_square:
  assumes "0 \<le> w s" and "w s = h s" and "grid2range s x y = Some i"
  shows "\<exists>d. range2grid s i = Some (x, y, d)"
  using assms
  by (auto simp: range2grid_def grid2range_def Let_def split: if_splits)

lemma isball_probe:
  "isball s gx gy d l =
     (let c = probed_cell gx gy d l
      in if fst c < 1 \<or> snd c < 1 \<or> fst c > h s \<or> snd c > w s then Inr False
         else seq (GRID s (fst c) (snd c)) (\<lambda>v. Inr (v AND BALL_CORRECT \<noteq> 0)))"
  by (simp add: isball_def probed_cell_def Let_def split: prod.splits look.splits)

lemma isball_square_outside:
  assumes "w s = h s" and "\<not> in_arena s (probed_cell gx gy d l)"
  shows "isball s gx gy d l = Inr False"
  using assms by (auto simp: isball_probe in_arena_def Let_def)

lemma arena_index_in_grid:
  assumes "wf_state s" and "w s = h s" and "0 \<le> x" and "x \<le> w s + 1" and "0 \<le> y" and "y \<le> h s + 1"
  shows "0 \<le> GRID_index s x y \<and> GRID_index s x y < int (length (grid s))"
proof -
  have l: "int (length (grid s)) = (h s + 2) * (h s + 2)" and hh: "2 \<le> h s"
    using assms(1,2) by (simp_all add: wf_state_def)
  have "y * (h s + 2) \<le> (h s + 1) * (h s + 2)"
    using assms(6) hh by (intro mult_right_mono) simp_all
  then have "y * (h s + 2) + x < (h s + 2) * (h s + 2)"
    using assms(2,4) by (simp add: algebra_simps)
  moreover have "0 \<le> y * (h s + 2)"
    using assms(5) hh by simp
  ultimately show ?thesis
    using assms(3) l by (simp add: GRID_index_def)
qed

lemma isball_square_inside:
  assumes "wf_state s" and "w s = h s" and "in_arena s (probed_cell gx gy d l)"
  shows "isball s gx gy d l = Inr (true_ball s (probed_cell gx gy d l))"
proof -
  let ?c = "probed_cell gx gy d l"
  have b: "1 \<le> fst ?c" "fst ?c \<le> w s" "1 \<le> snd ?c" "snd ?c \<le> h s"
    using assms(3) by (simp_all add: in_arena_def)
  have "0 \<le> GRID_index s (fst ?c) (snd ?c) \<and> GRID_index s (fst ?c) (snd ?c) < int (length (grid s))"
    using b by (intro arena_index_in_grid [OF assms(1,2)]) simp_all
  then have "GRID s (fst ?c) (snd ?c) = Inr (grid s ! nat (GRID_index s (fst ?c) (snd ?c)))"
    by (simp add: GRID_def rd_def)
  then show ?thesis
    using b assms(2)
    by (simp add: isball_probe Let_def seq_def true_ball_def flag_set_def)
qed

lemma exits_set_Inr:
  "exits_set t i v = Inr t' \<longleftrightarrow>
     0 \<le> i \<and> i < int (length (exits t)) \<and> t' = t\<lparr>exits := (exits t)[nat i := v]\<rparr>"
  by (auto simp: exits_set_def wr_def)

lemma grid2range_cong: "w t = w s \<Longrightarrow> h t = h s \<Longrightarrow> grid2range t x y = grid2range s x y"
  by (simp only: grid2range_def)

lemma back_on_range_effect:
  assumes "back_on_range s xs ys i x y = Inr s'"
  shows "laserno s' = laserno s + 1 \<and>
     (if x = xs \<and> y = ys
      then GRID s' x y = Inr LASER_REFLECT \<and> exits_get s' i = Inr LASER_REFLECT
      else \<exists>j. grid2range s x y = Some j \<and>
             exits_get s' i = Inr (word_of_int j) \<and> exits_get s' j = Inr (word_of_int i) \<and>
             GRID s' xs ys = Inr (word_of_int (laserno s)) \<and>
             GRID s' x y = Inr (word_of_int (laserno s)))"
proof (cases "x = xs \<and> y = ys")
  case True
  then show ?thesis
    using assms
    by (auto simp: back_on_range_def Let_def seq_Inr_iff GRID_set_Inr exits_set_Inr
        GRID_def rd_def GRID_index_def exits_get_def)
next
  case False
  let ?n = "word_of_int (laserno s) :: uint"
  let ?s0 = "s\<lparr>laserno := laserno s + 1\<rparr>"
  from assms False obtain s1 s2 j s3 where
    s1: "GRID_set ?s0 xs ys ?n = Inr s1" and s2: "GRID_set s1 x y ?n = Inr s2" and
    j: "grid2range s2 x y = Some j" and s3: "exits_set s2 i (word_of_int j) = Inr s3" and
    s': "exits_set s3 j (word_of_int i) = Inr s'"
    by (auto simp: back_on_range_def Let_def seq_Inr_iff split: option.splits if_splits)
  have "w s2 = w s" "h s2 = h s"
    using s1 s2 by (auto simp: GRID_set_Inr)
  then have j': "grid2range s x y = Some j"
    using j grid2range_cong [of s2 s x y] by simp
  have "exits_get s' j = Inr (word_of_int i)"
    using s3 s' by (auto simp: exits_set_Inr exits_get_def rd_def)
  moreover have "exits_get s' i = Inr (word_of_int j)"
    using s3 s' by (auto simp: exits_set_Inr exits_get_def rd_def nth_list_update nat_eq_iff)
  moreover have "GRID s' x y = Inr ?n"
    using s1 s2 s3 s'
    by (auto simp: exits_set_Inr GRID_set_Inr GRID_def rd_def GRID_index_def)
  moreover have "GRID s' xs ys = Inr ?n"
    using s1 s2 s3 s'
    by (auto simp: exits_set_Inr GRID_set_Inr GRID_def rd_def GRID_index_def nth_list_update)
  moreover have "laserno s' = laserno s + 1"
    using s1 s2 s3 s' by (auto simp: exits_set_Inr GRID_set_Inr)
  ultimately show ?thesis
    using False j' by auto
qed

lemma fire_loop_on_range:
  assumes "grid2range s x y = Some j"
  shows "fire_loop s xs ys i x y d = Some (back_on_range s xs ys i x y)"
  using assms by (subst fire_loop.simps) simp

lemma fire_loop_outcome:
  assumes "fire_loop s xs ys i x y d = Some r"
  shows "outcome s xs ys i r"
proof (rule fire_loop.raw_induct [where P = "\<lambda>s xs ys i x y d r. outcome s xs ys i r"
      and xa = "((((((s, xs), ys), i), x), y), d)" and ya = r, simplified])
  show "fire_loop s xs ys i x y d = Some r"
    by (rule assms)
next
  fix loop s xs ys i x y d r
  assume IH: "\<And>s xs ys i x y d r. loop s xs ys i x y d = Some r \<Longrightarrow> outcome s xs ys i r"
    and body: "(case grid2range s x y of
        None \<Rightarrow>
         (case GRID s x y of
            Inl e \<Rightarrow> Some (Inl e)
          | Inr c \<Rightarrow>
             if c AND BALL_CORRECT \<noteq> 0 then Some (Inl Assert_failed)
             else
              (case isball s x y d LOOK_FORWARD of
                 Inl e \<Rightarrow> Some (Inl e)
               | Inr ahead \<Rightarrow>
                  if ahead then Some (mark_hit s xs ys i)
                  else
                   (case isball s x y d LOOK_LEFT of
                      Inl e \<Rightarrow> Some (Inl e)
                    | Inr left \<Rightarrow>
                       if left then loop s xs ys i x y ((d + 1) mod 4)
                       else
                        (case isball s x y d LOOK_RIGHT of
                           Inl e \<Rightarrow> Some (Inl e)
                         | Inr right \<Rightarrow>
                            if right then loop s xs ys i x y ((d + 3) mod 4)
                            else loop s xs ys i (fst (OFFSET x y d)) (snd (OFFSET x y d)) d))))
      | Some unused \<Rightarrow> Some (back_on_range s xs ys i x y)) = Some r"
  show "outcome s xs ys i r"
  proof (cases "grid2range s x y")
    case (Some j)
    then show ?thesis using body by (auto simp: outcome_def)
  next
    case None
    then show ?thesis
      using body IH
      by (auto simp: outcome_def [of s xs ys i "Inl _"] outcome_def [of s xs ys i "mark_hit _ _ _ _"]
          split: sum.splits if_splits)
  qed
qed

lemma OFFSET_dirs:
  "OFFSET x y DIR_UP = (x, y - 1)" "OFFSET x y DIR_RIGHT = (x + 1, y)"
  "OFFSET x y DIR_DOWN = (x, y + 1)" "OFFSET x y DIR_LEFT = (x - 1, y)"
  by (simp_all add: OFFSET_def offsets_def DIR_UP_def DIR_RIGHT_def DIR_DOWN_def DIR_LEFT_def)

lemma range2grid_cases:
  assumes "range2grid s i = Some (x, y, d)"
  obtains (top) "0 \<le> i" "i < w s" "x = i + 1" "y = 0" "d = DIR_DOWN"
    | (right) "0 \<le> i - w s" "i - w s < h s" "x = w s + 1" "y = i - w s + 1" "d = DIR_LEFT"
    | (bottom) "0 \<le> i - w s - h s" "i - w s - h s < w s" "x = w s - (i - w s - h s)"
        "y = h s + 1" "d = DIR_UP"
    | (left) "0 \<le> i - w s - h s - w s" "i - w s - h s - w s < h s" "x = 0"
        "y = h s - (i - w s - h s - w s)" "d = DIR_RIGHT"
  using assms by (auto simp: range2grid_def Let_def split: if_splits)

lemma range2grid_bounds:
  assumes "wf_state s" and "range2grid s i = Some (x, y, d)"
  shows "0 \<le> i \<and> i < nlasers s \<and> 0 \<le> x \<and> x \<le> w s + 1 \<and> 0 \<le> y \<and> y \<le> h s + 1"
proof -
  have d: "2 \<le> w s" "2 \<le> h s" "nlasers s = 2 * (w s + h s)"
    using assms(1) by (simp_all add: wf_state_def)
  from assms(2) show ?thesis
    by (cases rule: range2grid_cases) (use d in auto)
qed

lemma first_cell_in_arena:
  assumes "wf_state s" and "range2grid s i = Some (x, y, d)"
  shows "in_arena s (probed_cell x y d LOOK_FORWARD)"
proof -
  have d: "2 \<le> w s" "2 \<le> h s"
    using assms(1) by (simp_all add: wf_state_def)
  from assms(2) show ?thesis
    by (cases rule: range2grid_cases)
      (use d in \<open>auto simp: probed_cell_def OFFSET_dirs in_arena_def\<close>)
qed

lemma isball_square:
  assumes "wf_state s" and "w s = h s"
  shows "isball s gx gy d l = Inr (sees s (probed_cell gx gy d l))"
proof (cases "in_arena s (probed_cell gx gy d l)")
  case True
  then show ?thesis
    using isball_square_inside [OF assms True] by (simp add: sees_def)
next
  case False
  then show ?thesis
    using isball_square_outside [OF assms(2) False] by (simp add: sees_def)
qed

lemma mark_square:
  assumes "wf_state s" and "w s = h s" and "range2grid s i = Some (x, y, d)"
  shows "seq (GRID_set s x y v) (\<lambda>state. exits_set state i v) =
     Inr (s\<lparr>grid := (grid s)[nat (GRID_index s x y) := v], exits := (exits s)[nat i := v]\<rparr>)"
proof -
  note b = range2grid_bounds [OF assms(1,3)]
  have g: "0 \<le> GRID_index s x y \<and> GRID_index s x y < int (length (grid s))"
    using b by (intro arena_index_in_grid [OF assms(1,2)]) simp_all
  have e: "int (length (exits s)) = nlasers s"
    using assms(1) by (simp add: wf_state_def)
  show ?thesis
    using g b e by (simp add: seq_def GRID_set_def wr_def exits_set_def)
qed

lemma fire_laser_first_step_square:
  assumes "wf_state s" and "w s = h s" and "range2grid s i = Some (x, y, d)"
  shows "fire_laser s x y d =
     (if true_ball s (probed_cell x y d LOOK_FORWARD) then
        Some (Inr (s\<lparr>grid := (grid s)[nat (GRID_index s x y) := LASER_HIT],
                      exits := (exits s)[nat i := LASER_HIT]\<rparr>))
      else if sees s (probed_cell x y d LOOK_LEFT) \<or> sees s (probed_cell x y d LOOK_RIGHT) then
        Some (Inr (s\<lparr>grid := (grid s)[nat (GRID_index s x y) := LASER_REFLECT],
                      exits := (exits s)[nat i := LASER_REFLECT]\<rparr>))
      else fire_loop s x y i (fst (OFFSET x y d)) (snd (OFFSET x y d)) d)"
proof -
  have w: "0 \<le> w s" "w s \<le> h s"
    using assms(1,2) by (simp_all add: wf_state_def)
  have r: "grid2range s x y = Some i"
    by (rule round_trip_not_wider [OF w assms(3)])
  have f: "sees s (probed_cell x y d LOOK_FORWARD) = true_ball s (probed_cell x y d LOOK_FORWARD)"
    using first_cell_in_arena [OF assms(1,3)] by (simp add: sees_def)
  show ?thesis
    by (simp add: fire_laser_def r isball_square [OF assms(1,2)] f mark_hit_def mark_reflect_def
        mark_square [OF assms])
qed

lemma mark_effect:
  assumes "seq (GRID_set s x y v) (\<lambda>state. exits_set state i v) = Inr s'"
  shows "laserno s' = laserno s \<and> GRID s' x y = Inr v \<and> exits_get s' i = Inr v"
  using assms
  by (auto simp: seq_Inr_iff GRID_set_Inr exits_set_Inr GRID_def rd_def GRID_index_def
      exits_get_def)

lemma fire_laser_outcomes:
  assumes "fire_laser s x y d = Some (Inr s')"
  shows "\<exists>i. grid2range s x y = Some i \<and>
     (mark_hit s x y i = Inr s' \<or> mark_reflect s x y i = Inr s' \<or>
      (\<exists>ex ey j. grid2range s ex ey = Some j \<and> back_on_range s x y i ex ey = Inr s'))"
proof (cases "grid2range s x y")
  case None
  then show ?thesis using assms by (simp add: fire_laser_def)
next
  case (Some i)
  have "mark_hit s x y i = Inr s' \<or> mark_reflect s x y i = Inr s' \<or>
        fire_loop s x y i (fst (OFFSET x y d)) (snd (OFFSET x y d)) d = Some (Inr s')"
    using assms Some by (auto simp: fire_laser_def split: sum.splits if_splits)
  moreover have "mark_hit s x y i = Inr s' \<or>
      (\<exists>ex ey j. grid2range s ex ey = Some j \<and> back_on_range s x y i ex ey = Inr s')"
    if "fire_loop s x y i (fst (OFFSET x y d)) (snd (OFFSET x y d)) d = Some (Inr s')"
    using fire_loop_outcome [OF that] unfolding outcome_def by (metis Inl_Inr_False)
  ultimately show ?thesis
    using Some by blast
qed

lemma round_trip_partial:
  assumes "0 \<le> w s" and "0 \<le> h s"
    and "range2grid s i = Some (x, y, d)" and "grid2range s x y = Some k"
  shows "k = i"
  using assms by (auto simp: range2grid_def grid2range_def Let_def split: if_splits)

lemma fire_laser_exit:
  assumes "range2grid s i = Some (x, y, d)" and "fire_laser s x y d = Some (Inr s')"
    and "0 \<le> w s" and "0 \<le> h s"
  shows "grid2range s x y = Some i \<and>
     (laserno s' = laserno s \<and>
        (exits_get s' i = Inr LASER_HIT \<and> GRID s' x y = Inr LASER_HIT \<or>
         exits_get s' i = Inr LASER_REFLECT \<and> GRID s' x y = Inr LASER_REFLECT) \<or>
      laserno s' = laserno s + 1 \<and>
        (exits_get s' i = Inr LASER_REFLECT \<and> GRID s' x y = Inr LASER_REFLECT \<or>
         (\<exists>ex ey j. (ex, ey) \<noteq> (x, y) \<and> grid2range s ex ey = Some j \<and>
            exits_get s' i = Inr (word_of_int j) \<and> exits_get s' j = Inr (word_of_int i) \<and>
            GRID s' x y = Inr (word_of_int (laserno s)) \<and>
            GRID s' ex ey = Inr (word_of_int (laserno s)))))"
proof -
  from fire_laser_outcomes [OF assms(2)] obtain k where k: "grid2range s x y = Some k" and
    o: "mark_hit s x y k = Inr s' \<or> mark_reflect s x y k = Inr s' \<or>
        (\<exists>ex ey j. grid2range s ex ey = Some j \<and> back_on_range s x y k ex ey = Inr s')"
    by blast
  have "k = i"
    by (rule round_trip_partial [OF assms(3,4,1) k])
  from o show ?thesis
  proof (elim disjE exE conjE)
    assume "mark_hit s x y k = Inr s'"
    then show ?thesis
      using mark_effect [of s x y LASER_HIT k s'] k \<open>k = i\<close> by (simp add: mark_hit_def)
  next
    assume "mark_reflect s x y k = Inr s'"
    then show ?thesis
      using mark_effect [of s x y LASER_REFLECT k s'] k \<open>k = i\<close> by (simp add: mark_reflect_def)
  next
    fix ex ey j
    assume j: "grid2range s ex ey = Some j" and b: "back_on_range s x y k ex ey = Inr s'"
    show ?thesis
    proof (cases "ex = x \<and> ey = y")
      case True
      then show ?thesis
        using back_on_range_effect [OF b] k \<open>k = i\<close> by simp
    next
      case False
      then have "(ex, ey) \<noteq> (x, y)" by simp
      then show ?thesis
        using back_on_range_effect [OF b] k \<open>k = i\<close> j False by auto
    qed
  qed
qed

lemma seq_Inr: "seq (Inr v) f = f v"
  by (simp add: seq_def)

lemma back_on_range_square:
  assumes "wf_state s" and "w s = h s"
    and "range2grid s i = Some (xs, ys, d0)" and "range2grid s j = Some (x, y, dj)"
  shows "\<exists>s'. fire_loop s xs ys i x y d = Some (Inr s') \<and> laserno s' = laserno s + 1 \<and>
     (if x = xs \<and> y = ys
      then GRID s' x y = Inr LASER_REFLECT \<and> exits_get s' i = Inr LASER_REFLECT
      else exits_get s' i = Inr (word_of_int j) \<and> exits_get s' j = Inr (word_of_int i) \<and>
           GRID s' xs ys = Inr (word_of_int (laserno s)) \<and>
           GRID s' x y = Inr (word_of_int (laserno s)))"
proof -
  have w: "0 \<le> w s" "w s \<le> h s"
    using assms(1,2) by (simp_all add: wf_state_def)
  have rj: "grid2range s x y = Some j"
    by (rule round_trip_not_wider [OF w assms(4)])
  note bi = range2grid_bounds [OF assms(1,3)]
  note bj = range2grid_bounds [OF assms(1,4)]
  have gi: "0 \<le> GRID_index s xs ys \<and> GRID_index s xs ys < int (length (grid s))"
    using bi by (intro arena_index_in_grid [OF assms(1,2)]) simp_all
  have gj: "0 \<le> GRID_index s x y \<and> GRID_index s x y < int (length (grid s))"
    using bj by (intro arena_index_in_grid [OF assms(1,2)]) simp_all
  have e: "int (length (exits s)) = nlasers s"
    using assms(1) by (simp add: wf_state_def)
  let ?n = "word_of_int (laserno s) :: uint"
  let ?s0 = "s\<lparr>laserno := laserno s + 1\<rparr>"
  have "\<exists>s'. back_on_range s xs ys i x y = Inr s'"
  proof (cases "xs = x \<and> ys = y")
    case True
    let ?s1 = "?s0\<lparr>grid := (grid ?s0)[nat (GRID_index ?s0 x y) := LASER_REFLECT]\<rparr>"
    have 1: "GRID_set ?s0 x y LASER_REFLECT = Inr ?s1"
      using gj by (simp add: GRID_set_def wr_def GRID_index_def)
    have 2: "exits_set ?s1 i LASER_REFLECT = Inr (?s1\<lparr>exits := (exits ?s1)[nat i := LASER_REFLECT]\<rparr>)"
      using bi e by (simp add: exits_set_def wr_def)
    have "back_on_range s xs ys i x y = Inr (?s1\<lparr>exits := (exits ?s1)[nat i := LASER_REFLECT]\<rparr>)"
      by (simp only: back_on_range_def Let_def if_P [OF True] 1 2 seq_Inr)
    then show ?thesis by blast
  next
    case False
    let ?s1 = "?s0\<lparr>grid := (grid ?s0)[nat (GRID_index ?s0 xs ys) := ?n]\<rparr>"
    let ?s2 = "?s1\<lparr>grid := (grid ?s1)[nat (GRID_index ?s1 x y) := ?n]\<rparr>"
    let ?s3 = "?s2\<lparr>exits := (exits ?s2)[nat i := word_of_int j]\<rparr>"
    let ?s4 = "?s3\<lparr>exits := (exits ?s3)[nat j := word_of_int i]\<rparr>"
    have 1: "GRID_set ?s0 xs ys ?n = Inr ?s1"
      using gi by (simp add: GRID_set_def wr_def GRID_index_def)
    have 2: "GRID_set ?s1 x y ?n = Inr ?s2"
      using gj by (simp add: GRID_set_def wr_def GRID_index_def)
    have 3: "grid2range ?s2 x y = Some j"
      using rj grid2range_cong [of ?s2 s x y] by simp
    have 4: "exits_set ?s2 i (word_of_int j) = Inr ?s3"
      using bi e by (simp add: exits_set_def wr_def)
    have 5: "exits_set ?s3 j (word_of_int i) = Inr ?s4"
      using bj e by (simp add: exits_set_def wr_def)
    have "back_on_range s xs ys i x y = Inr ?s4"
      by (simp only: back_on_range_def Let_def if_not_P [OF False] 1 2 3 4 5 seq_Inr option.case)
    then show ?thesis by blast
  qed
  then obtain s' where s': "back_on_range s xs ys i x y = Inr s'"
    by blast
  have run: "fire_loop s xs ys i x y d = Some (Inr s')"
    using fire_loop_on_range [OF rj] s' by simp
  show ?thesis
    using run back_on_range_effect [OF s'] rj by auto
qed

section \<open>The consistency check returns on square boards only\<close>

text \<open>When \<^verbatim>\<open>check_guesses\<close> returns, the board is square: on a board higher than
  wide the loop that clears the lasers writes outside the grid, and on a board wider than
  high the laser \<open>w\<close> is fired from a cell that \<^verbatim>\<open>grid2range\<close> rejects.  On a square
  board the cells of the perimeter and the cells of the arena have different places in
  the grid, so the lasers that the check adds leave the flags of the arena alone.\<close>

lemma range2grid_cong: "w t = w s \<Longrightarrow> h t = h s \<Longrightarrow> range2grid t i = range2grid s i"
  by (simp only: range2grid_def)

lemma GRID_index_cong: "h t = h s \<Longrightarrow> GRID_index t x y = GRID_index s x y"
  by (simp add: GRID_index_def)

lemma grid2range_wider:
  assumes "0 < h s" and "h s < w s" and "grid2range s x y = Some k"
  shows "k \<noteq> w s"
  using assms by (auto simp: grid2range_def Let_def split: if_splits)

lemma grid2range_nonneg:
  assumes "0 < h s" and "0 < w s" and "grid2range s x y = Some k"
  shows "0 \<le> k"
  using assms by (auto simp: grid2range_def Let_def split: if_splits)

lemma clear_laser_effect:
  assumes "clear_laser i t = Inr t'"
  shows "\<exists>x y d. range2grid t i = Some (x, y, d) \<and>
           0 \<le> GRID_index t x y \<and> GRID_index t x y < int (length (grid t)) \<and>
           0 \<le> i \<and> i < int (length (exits t)) \<and>
           t' = t\<lparr>grid := (grid t)[nat (GRID_index t x y) := 0],
                  exits := (exits t)[nat i := LASER_EMPTY]\<rparr>"
  using assms
  by (auto simp: clear_laser_def seq_Inr_iff GRID_set_Inr exits_set_Inr split: option.splits)

lemma mark_structure:
  assumes "seq (GRID_set t x y v) (\<lambda>state. exits_set state i v) = Inr t'"
  shows "0 \<le> i \<and> i < int (length (exits t)) \<and>
     w t' = w t \<and> h t' = h t \<and> nlasers t' = nlasers t \<and>
     length (grid t') = length (grid t) \<and> exits t' = (exits t)[nat i := v]"
  using assms
  by (auto simp: seq_Inr_iff GRID_set_Inr exits_set_Inr)

lemma back_on_range_structure:
  assumes "back_on_range t xs ys i x y = Inr t'"
  shows "w t' = w t \<and> h t' = h t \<and> nlasers t' = nlasers t \<and>
     length (grid t') = length (grid t) \<and> length (exits t') = length (exits t) \<and>
     (\<forall>k. k \<noteq> nat i \<and> (\<forall>j. grid2range t x y = Some j \<longrightarrow> k \<noteq> nat j) \<longrightarrow>
        exits t' ! k = exits t ! k)"
proof (cases "xs = x \<and> ys = y")
  case True
  then show ?thesis
    using assms
    by (auto simp: back_on_range_def Let_def seq_Inr_iff GRID_set_Inr exits_set_Inr)
next
  case False
  let ?n = "word_of_int (laserno t) :: uint"
  let ?s0 = "t\<lparr>laserno := laserno t + 1\<rparr>"
  from assms False obtain s1 s2 j s3 where
    s1: "GRID_set ?s0 xs ys ?n = Inr s1" and s2: "GRID_set s1 x y ?n = Inr s2" and
    j: "grid2range s2 x y = Some j" and s3: "exits_set s2 i (word_of_int j) = Inr s3" and
    s': "exits_set s3 j (word_of_int i) = Inr t'"
    by (auto simp: back_on_range_def Let_def seq_Inr_iff split: option.splits if_splits)
  have "w s2 = w t" "h s2 = h t"
    using s1 s2 by (auto simp: GRID_set_Inr)
  then have j': "grid2range t x y = Some j"
    using j grid2range_cong [of s2 t x y] by simp
  show ?thesis
    using s1 s2 s3 s' j'
    by (auto simp: GRID_set_Inr exits_set_Inr)
qed

lemma fire_laser_structure:
  assumes "fire_laser t x y d = Some (Inr t')"
  shows "w t' = w t \<and> h t' = h t \<and> nlasers t' = nlasers t \<and>
     length (grid t') = length (grid t) \<and> length (exits t') = length (exits t) \<and>
     (\<forall>k. (\<forall>ex ey j. grid2range t ex ey = Some j \<longrightarrow> k \<noteq> nat j) \<longrightarrow>
        exits t' ! k = exits t ! k)"
proof -
  from fire_laser_outcomes [OF assms] obtain i where i: "grid2range t x y = Some i" and
    o: "mark_hit t x y i = Inr t' \<or> mark_reflect t x y i = Inr t' \<or>
        (\<exists>ex ey j. grid2range t ex ey = Some j \<and> back_on_range t x y i ex ey = Inr t')"
    by blast
  have nk: "k \<noteq> nat i" if "\<forall>ex ey j. grid2range t ex ey = Some j \<longrightarrow> k \<noteq> nat j" for k
    using that i by blast
  from o show ?thesis
  proof (elim disjE exE conjE)
    assume "mark_hit t x y i = Inr t'"
    note m = mark_structure [OF this [unfolded mark_hit_def]]
    have "exits t' ! k = exits t ! k"
      if a: "\<forall>ex ey j. grid2range t ex ey = Some j \<longrightarrow> k \<noteq> nat j" for k
      using m nk [OF a] by simp
    then show ?thesis
      using m by simp
  next
    assume "mark_reflect t x y i = Inr t'"
    note m = mark_structure [OF this [unfolded mark_reflect_def]]
    have "exits t' ! k = exits t ! k"
      if a: "\<forall>ex ey j. grid2range t ex ey = Some j \<longrightarrow> k \<noteq> nat j" for k
      using m nk [OF a] by simp
    then show ?thesis
      using m by simp
  next
    fix ex ey j
    assume j: "grid2range t ex ey = Some j" and b: "back_on_range t x y i ex ey = Inr t'"
    note m = back_on_range_structure [OF b]
    have "exits t' ! k = exits t ! k"
      if a: "\<forall>ex ey j. grid2range t ex ey = Some j \<longrightarrow> k \<noteq> nat j" for k
    proof -
      have "k \<noteq> nat j" using a j by blast
      then show ?thesis
        using m nk [OF a] j by simp
    qed
    then show ?thesis
      using m by simp
  qed
qed

lemma same_dims_wf: "wf_state s \<Longrightarrow> same_dims s t \<Longrightarrow> wf_state t"
  by (simp add: wf_state_def same_dims_def)

lemma check_guesses_stages:
  assumes "wf_state s" and "check_guesses s = Some (Inr (ret, st))"
  obtains sol1 gue0 gue1 sol2 gue2 st1 st2 where
    "for_each [0..nlasers s - 1] clear_laser s = Inr sol1"
    "dup_game sol1 = Inr gue0"
    "for_arena s guess_to_correct gue0 = Inr gue1"
    "for_each_d [0..nlasers sol1 - 1] fire_both (sol1, gue1) = Some (Inr (sol2, gue2))"
    "for_each [0..nlasers sol2 - 1] (compare_laser sol2 gue2) (s, 1) = Inr (st1, ret)"
    "(if ret = 0 then Inr st1 else for_arena st1 fix_up st1) = Inr st2"
    "fill_counts st2 = Inr st"
proof -
  from assms(2) obtain sol1 gue1 where
    a: "seq (for_each [0..nlasers s - 1] clear_laser s) (\<lambda>solution.
           seq (dup_game solution) (\<lambda>guesses.
           seq (for_arena s guess_to_correct guesses) (\<lambda>guesses.
           Inr (solution, guesses)))) = Inr (sol1, gue1)"
    and b: "(case for_each_d [0..nlasers sol1 - 1] fire_both (sol1, gue1) of
            None \<Rightarrow> None
          | Some (Inl e) \<Rightarrow> Some (Inl e)
          | Some (Inr (solution, guesses)) \<Rightarrow>
              Some
               (seq (for_each [0..nlasers solution - 1] (compare_laser solution guesses)
                       (s, 1)) (\<lambda>(state, ret).
                seq (if ret = 0 then Inr state else for_arena state fix_up state) (\<lambda>state.
                seq (fill_counts state) (\<lambda>state.
                Inr (ret, state)))))) = Some (Inr (ret, st))"
    unfolding check_guesses_def dup_game_wf [OF assms(1)] seq_Inr
    by (auto split: sum.splits prod.splits)
  from a obtain gue0 where
    1: "for_each [0..nlasers s - 1] clear_laser s = Inr sol1" and
    2: "dup_game sol1 = Inr gue0" and
    3: "for_arena s guess_to_correct gue0 = Inr gue1"
    by (auto simp: seq_Inr_iff)
  from b obtain sol2 gue2 where
    4: "for_each_d [0..nlasers sol1 - 1] fire_both (sol1, gue1) = Some (Inr (sol2, gue2))" and
    c: "seq (for_each [0..nlasers sol2 - 1] (compare_laser sol2 gue2) (s, 1)) (\<lambda>(state, ret).
          seq (if ret = 0 then Inr state else for_arena state fix_up state) (\<lambda>state.
          seq (fill_counts state) (\<lambda>state. Inr (ret, state)))) = Inr (ret, st)"
    by (auto split: option.splits sum.splits prod.splits)
  from c obtain st1 st2 where
    5: "for_each [0..nlasers sol2 - 1] (compare_laser sol2 gue2) (s, 1) = Inr (st1, ret)" and
    6: "(if ret = 0 then Inr st1 else for_arena st1 fix_up st1) = Inr st2" and
    7: "fill_counts st2 = Inr st"
    by (auto simp: seq_Inr_iff split: prod.splits)
  show ?thesis
    using that [OF 1 2 3 4 5 6 7] .
qed

lemma clear_laser_dims:
  assumes "clear_laser i t = Inr t'" and "same_dims s t"
  shows "same_dims s t'"
  using clear_laser_effect [OF assms(1)] assms(2) by (auto simp: same_dims_def)

lemma clear_loop_dims:
  assumes "for_each xs clear_laser s = Inr t"
  shows "same_dims s t"
proof (rule for_each_inv_mem [where I = "same_dims s" and A = UNIV, OF assms])
  show "same_dims s s" by (simp add: same_dims_def)
next
  show "set xs \<subseteq> UNIV" by simp
next
  fix a t t'
  assume "same_dims s t" "clear_laser a t = Inr t'"
  then show "same_dims s t'" by (simp add: clear_laser_dims)
qed

lemma clear_loop_exits:
  assumes "for_each xs clear_laser s = Inr t"
  shows "\<forall>i \<in> set xs. exits t ! nat i = LASER_EMPTY"
proof -
  let ?P = "\<lambda>dn u. \<forall>i \<in> set dn. exits u ! nat i = LASER_EMPTY"
  have "?P ([] @ xs) t"
  proof (rule for_each_invariant [where P = ?P, OF assms])
    show "?P [] s" by simp
  next
    fix dn a u u'
    assume p: "?P dn u" and f: "clear_laser a u = Inr u'"
    from clear_laser_effect [OF f] obtain x y d where
      b: "0 \<le> a" "a < int (length (exits u))" and
      u': "u' = u\<lparr>grid := (grid u)[nat (GRID_index u x y) := 0],
                  exits := (exits u)[nat a := LASER_EMPTY]\<rparr>"
      by blast
    have "nat a < length (exits u)"
      using b by simp
    then show "?P (dn @ [a]) u'"
      using p by (auto simp: u' nth_list_update)
  qed
  then show ?thesis by simp
qed

lemma clear_loop_not_taller:
  assumes "wf_state s" and "for_each [0..nlasers s - 1] clear_laser s = Inr t"
  shows "h s \<le> w s"
proof (rule ccontr)
  assume "\<not> h s \<le> w s"
  then have tall: "w s + 1 \<le> h s" by simp
  have d: "2 \<le> w s" "2 \<le> h s" "nlasers s = 2 * (w s + h s)"
    "int (length (grid s)) = (w s + 2) * (h s + 2)"
    using assms(1) by (simp_all add: wf_state_def)
  have m: "w s + h s \<in> set [0..nlasers s - 1]"
    using d by simp
  have "\<exists>u u'. same_dims s u \<and> clear_laser (w s + h s) u = Inr u'"
  proof (rule for_each_reaches [where I = "same_dims s" and A = UNIV, OF assms(2) _ _ m])
    show "same_dims s s" by (simp add: same_dims_def)
  next
    show "set [0..nlasers s - 1] \<subseteq> UNIV" by simp
  next
    fix a t t'
    assume "same_dims s t" "clear_laser a t = Inr t'"
    then show "same_dims s t'" by (simp add: clear_laser_dims)
  qed
  then obtain u u' where u: "same_dims s u" and c: "clear_laser (w s + h s) u = Inr u'"
    by blast
  from clear_laser_effect [OF c] obtain x y dd where
    r: "range2grid u (w s + h s) = Some (x, y, dd)" and
    hi: "GRID_index u x y < int (length (grid u))"
    by blast
  have "range2grid u (w s + h s) = Some (w s, h s + 1, DIR_UP)"
    using u d by (simp add: range2grid_def same_dims_def)
  then have xy: "x = w s" "y = h s + 1"
    using r by simp_all
  have a: "(w s + 2) * (h s + 2) \<le> (h s + 1) * (h s + 2)"
    using tall d by (intro mult_right_mono) simp_all
  have "GRID_index u x y = (h s + 1) * (h s + 2) + w s"
    using u by (simp add: GRID_index_def xy same_dims_def)
  moreover have "int (length (grid u)) = (w s + 2) * (h s + 2)"
    using u d by (simp add: same_dims_def)
  ultimately have b: "(h s + 1) * (h s + 2) + w s < (w s + 2) * (h s + 2)"
    using hi by simp
  from a b d(1) show False
    by linarith
qed

lemma fire_if_empty_cases:
  assumes "fire_if_empty i x y d t = Some (Inr t')"
  shows "t' = t \<and> exits_get t i \<noteq> Inr LASER_EMPTY \<or> fire_laser t x y d = Some (Inr t')"
  using assms by (auto simp: fire_if_empty_def split: sum.splits if_splits)

lemma fire_both_solution:
  assumes "fire_both i (sol, gue) = Some (Inr (sol', gue'))"
  shows "\<exists>x y d. range2grid sol i = Some (x, y, d) \<and>
           fire_if_empty i x y d sol = Some (Inr sol')"
  using assms by (auto simp: fire_both_def split: option.splits sum.splits)

lemma fire_laser_dims:
  assumes "fire_laser t x y d = Some (Inr t')" and "same_dims s t"
  shows "same_dims s t'"
  using fire_laser_structure [OF assms(1)] assms(2) by (simp add: same_dims_def)

lemma fire_both_dims:
  assumes "fire_both i sg = Some (Inr sg')" and "same_dims s (fst sg)"
  shows "same_dims s (fst sg')"
proof -
  obtain sol gue sol' gue' where e: "sg = (sol, gue)" "sg' = (sol', gue')"
    by (cases sg, cases sg') blast
  from fire_both_solution [OF assms(1) [unfolded e]] obtain x y d where
    f: "fire_if_empty i x y d sol = Some (Inr sol')"
    by blast
  from fire_if_empty_cases [OF f] show ?thesis
    using assms(2) fire_laser_dims [of sol x y d sol' s] by (auto simp: e)
qed

lemma fire_loop_dims:
  assumes "for_each_d xs fire_both sg = Some (Inr sg')" and "same_dims s (fst sg)"
  shows "same_dims s (fst sg')"
proof (rule for_each_d_inv [where I = "\<lambda>p. same_dims s (fst p)" and A = UNIV, OF assms(1)])
  show "same_dims s (fst sg)" by (rule assms(2))
next
  show "set xs \<subseteq> UNIV" by simp
next
  fix a t t'
  assume "same_dims s (fst t)" "fire_both a t = Some (Inr t')"
  then show "same_dims s (fst t')" by (simp add: fire_both_dims)
qed

lemma fire_both_wider:
  assumes "wf_state s" and "h s < w s" and "same_dims s (fst sg)"
    and "exits (fst sg) ! nat (w s) = LASER_EMPTY"
    and "fire_both i sg = Some (Inr sg')"
  shows "i \<noteq> w s \<and> exits (fst sg') ! nat (w s) = LASER_EMPTY"
proof -
  obtain sol gue sol' gue' where e: "sg = (sol, gue)" "sg' = (sol', gue')"
    by (cases sg, cases sg') blast
  have d: "2 \<le> w s" "2 \<le> h s" "nlasers s = 2 * (w s + h s)"
    "int (length (exits s)) = nlasers s"
    using assms(1) by (simp_all add: wf_state_def)
  have sd: "w sol = w s" "h sol = h s" "length (exits sol) = length (exits s)"
    using assms(3) by (simp_all add: same_dims_def e)
  have em: "exits sol ! nat (w s) = LASER_EMPTY"
    using assms(4) by (simp add: e)
  from fire_both_solution [OF assms(5) [unfolded e]] obtain x y dd where
    r: "range2grid sol i = Some (x, y, dd)" and
    f: "fire_if_empty i x y dd sol = Some (Inr sol')"
    by blast
  have ne: "i \<noteq> w s"
  proof
    assume i: "i = w s"
    have rt: "range2grid sol (w sol) = Some (w sol + 1, 1, DIR_LEFT) \<and>
              grid2range sol (w sol + 1) 1 = None"
      by (rule round_trip_fails_wider) (use sd d assms(2) in simp_all)
    then have xy: "x = w s + 1" "y = 1" "dd = DIR_LEFT"
      using r i sd by simp_all
    have "exits_get sol i = Inr LASER_EMPTY"
      using em d sd i by (simp add: exits_get_def rd_def)
    then have "fire_if_empty i x y dd sol = fire_laser sol x y dd"
      by (simp add: fire_if_empty_def)
    moreover have "fire_laser sol x y dd = Some (Inl Assert_failed)"
      using rt sd by (simp add: fire_laser_def xy)
    ultimately show False
      using f by simp
  qed
  from fire_if_empty_cases [OF f] have "exits sol' ! nat (w s) = LASER_EMPTY"
  proof
    assume "sol' = sol \<and> exits_get sol i \<noteq> Inr LASER_EMPTY"
    then show ?thesis using em by simp
  next
    assume fl: "fire_laser sol x y dd = Some (Inr sol')"
    have "\<forall>ex ey j. grid2range sol ex ey = Some j \<longrightarrow> nat (w s) \<noteq> nat j"
    proof (intro allI impI)
      fix ex ey j
      assume "grid2range sol ex ey = Some j"
      from grid2range_wider [OF _ _ this] have "j \<noteq> w s"
        using sd d assms(2) by simp
      then show "nat (w s) \<noteq> nat j"
        using d by (simp add: nat_eq_iff)
    qed
    then show ?thesis
      using fire_laser_structure [OF fl] em by simp
  qed
  then show ?thesis
    using ne by (simp add: e)
qed

lemma fire_loop_not_wider:
  assumes "wf_state s" and "same_dims s sol" and "exits sol ! nat (w s) = LASER_EMPTY"
    and "for_each_d [0..nlasers s - 1] fire_both (sol, gue) = Some (Inr sg')"
  shows "w s \<le> h s"
proof (rule ccontr)
  assume "\<not> w s \<le> h s"
  then have wide: "h s < w s" by simp
  have d: "2 \<le> w s" "2 \<le> h s" "nlasers s = 2 * (w s + h s)"
    using assms(1) by (simp_all add: wf_state_def)
  have m: "w s \<in> set [0..nlasers s - 1]"
    using d by simp
  let ?I = "\<lambda>p. same_dims s (fst p) \<and> exits (fst p) ! nat (w s) = LASER_EMPTY"
  have "\<exists>t t'. ?I t \<and> fire_both (w s) t = Some (Inr t')"
  proof (rule for_each_d_reaches [where I = ?I and A = UNIV, OF assms(4) _ _ m])
    show "?I (sol, gue)" using assms(2,3) by simp
  next
    show "set [0..nlasers s - 1] \<subseteq> UNIV" by simp
  next
    fix a t t'
    assume "?I t" and f: "fire_both a t = Some (Inr t')"
    then show "?I t'"
      using fire_both_wider [OF assms(1) wide _ _ f] fire_both_dims [OF f] by simp
  qed
  then obtain t t' where "?I t" and f: "fire_both (w s) t = Some (Inr t')"
    by blast
  then show False
    using fire_both_wider [OF assms(1) wide _ _ f] by simp
qed

lemma check_guesses_square:
  assumes "wf_state s" and "check_guesses s = Some (Inr (ret, st))"
  shows "w s = h s"
proof -
  from check_guesses_stages [OF assms] obtain sol1 gue0 gue1 sol2 gue2 where
    1: "for_each [0..nlasers s - 1] clear_laser s = Inr sol1" and
    4: "for_each_d [0..nlasers sol1 - 1] fire_both (sol1, gue1) = Some (Inr (sol2, gue2))"
    by metis
  have d: "2 \<le> w s" "2 \<le> h s" "nlasers s = 2 * (w s + h s)"
    using assms(1) by (simp_all add: wf_state_def)
  have sd: "same_dims s sol1"
    by (rule clear_loop_dims [OF 1])
  then have n: "nlasers sol1 = nlasers s"
    by (simp add: same_dims_def)
  have "w s \<in> set [0..nlasers s - 1]"
    using d by simp
  then have e: "exits sol1 ! nat (w s) = LASER_EMPTY"
    using clear_loop_exits [OF 1] by blast
  have "w s \<le> h s"
    by (rule fire_loop_not_wider [OF assms(1) sd e 4 [unfolded n]])
  moreover have "h s \<le> w s"
    by (rule clear_loop_not_taller [OF assms(1) 1])
  ultimately show ?thesis by simp
qed

lemma GRID_index_inj:
  assumes "0 \<le> x" and "x < h s + 2" and "0 \<le> a" and "a < h s + 2"
    and "GRID_index s x y = GRID_index s a b"
  shows "x = a \<and> y = b"
proof -
  let ?n = "h s + 2"
  have e: "y * ?n + x = b * ?n + a"
    using assms(5) by (simp add: GRID_index_def)
  have "(y * ?n + x) mod ?n = x" "(b * ?n + a) mod ?n = a"
    using assms(1,2,3,4) by simp_all
  then have xa: "x = a"
    using e by simp
  then have "y * ?n = b * ?n"
    using e by simp
  moreover have "?n \<noteq> 0"
    using assms(1,2) by simp
  ultimately have "y = b"
    by simp
  then show ?thesis
    using xa by simp
qed

lemma range2grid_outside:
  assumes "wf_state s" and "range2grid s i = Some (x, y, d)"
  shows "\<not> in_arena s (x, y)"
proof -
  have d: "2 \<le> w s" "2 \<le> h s"
    using assms(1) by (simp_all add: wf_state_def)
  from assms(2) show ?thesis
    by (cases rule: range2grid_cases) (use d in \<open>auto simp: in_arena_def\<close>)
qed

lemma perimeter_index_ne:
  assumes "wf_state s" and "w s = h s" and "range2grid s j = Some (x, y, d)"
    and "c \<in> set (arena s)"
  shows "nat (GRID_index s x y) \<noteq> nat (GRID_index s (fst c) (snd c))"
proof
  assume e: "nat (GRID_index s x y) = nat (GRID_index s (fst c) (snd c))"
  note b = range2grid_bounds [OF assms(1,3)]
  have c: "1 \<le> fst c" "fst c \<le> w s" "1 \<le> snd c" "snd c \<le> h s"
    using assms(4) by (auto simp: set_arena)
  have "0 \<le> GRID_index s x y"
    using b by (intro arena_index_in_grid [OF assms(1,2), THEN conjunct1]) simp_all
  moreover have "0 \<le> GRID_index s (fst c) (snd c)"
    using c by (intro arena_index_in_grid [OF assms(1,2), THEN conjunct1]) simp_all
  ultimately have "GRID_index s x y = GRID_index s (fst c) (snd c)"
    using e by simp
  then have "x = fst c \<and> y = snd c"
    using b c assms(2) by (intro GRID_index_inj [of x s "fst c" y "snd c"]) simp_all
  then have "in_arena s (x, y)"
    using c by (simp add: in_arena_def)
  then show False
    using range2grid_outside [OF assms(1,3)] by simp
qed

lemma add_omitted_effect:
  assumes "add_omitted i x y se st = Inr st'"
  shows "same_dims st st' \<and>
     ((\<exists>v. grid st' = (grid st)[nat (GRID_index st x y) := v]) \<or>
      (\<exists>v ex ey j dd. range2grid st j = Some (ex, ey, dd) \<and>
         grid st' = (grid st)[nat (GRID_index st x y) := v, nat (GRID_index st ex ey) := v]))"
proof (cases "se = LASER_REFLECT \<or> se = LASER_HIT")
  case True
  then have "same_dims st st' \<and> grid st' = (grid st)[nat (GRID_index st x y) := se]"
    using assms
    by (auto simp: add_omitted_def seq_Inr_iff GRID_set_Inr exits_set_Inr exits_get_def rd_def
        same_dims_def GRID_index_def)
  then show ?thesis by blast
next
  case False
  let ?n = "word_of_int (laserno st) :: uint"
  from assms False obtain s1 ex ey dd s2 s3 where
    s1: "exits_set st i se = Inr s1" and
    r: "range2grid (s1\<lparr>laserno := laserno s1 + 1\<rparr>) (sint se) = Some (ex, ey, dd)" and
    s2: "GRID_set (s1\<lparr>laserno := laserno s1 + 1\<rparr>) x y (word_of_int (laserno s1)) = Inr s2" and
    s3: "GRID_set s2 ex ey (word_of_int (laserno s1)) = Inr s3" and
    s': "seq (exits_get s3 i) (\<lambda>v. exits_set s3 i (v OR LASER_OMITTED)) = Inr st'"
    by (auto simp: add_omitted_def Let_def seq_Inr_iff split: option.splits)
  have r': "range2grid st (sint se) = Some (ex, ey, dd)"
    using r s1 range2grid_cong [of "s1\<lparr>laserno := laserno s1 + 1\<rparr>" st "sint se"]
    by (auto simp: exits_set_Inr)
  have "same_dims st st' \<and>
      grid st' = (grid st)[nat (GRID_index st x y) := ?n, nat (GRID_index st ex ey) := ?n]"
    using s1 s2 s3 s'
    by (auto simp: seq_Inr_iff GRID_set_Inr exits_set_Inr exits_get_def rd_def
        same_dims_def GRID_index_def)
  then show ?thesis
    using r' by blast
qed

lemma compare_laser_effect:
  assumes "compare_laser sol gue i sr = Inr sr'"
  shows "\<exists>x y d. range2grid sol i = Some (x, y, d) \<and> same_dims (fst sr) (fst sr') \<and>
     (grid (fst sr') = grid (fst sr) \<or>
      (\<exists>v. grid (fst sr') = (grid (fst sr))[nat (GRID_index (fst sr) x y) := v]) \<or>
      (\<exists>v ex ey j dd. range2grid (fst sr) j = Some (ex, ey, dd) \<and>
         grid (fst sr') = (grid (fst sr))[nat (GRID_index (fst sr) x y) := v,
                                           nat (GRID_index (fst sr) ex ey) := v]))"
proof -
  from assms obtain x y d where r: "range2grid sol i = Some (x, y, d)"
    by (auto simp: compare_laser_def split: option.splits)
  from assms r obtain se ge where
    se: "exits_get sol i = Inr se" and ge: "exits_get gue i = Inr ge" and
    b: "(if se \<noteq> ge then
              seq (exits_get (fst sr) i) (\<lambda>ste.
              seq (if ste = LASER_EMPTY then add_omitted i x y se (fst sr)
                   else exits_set (fst sr) i (ste OR LASER_WRONG)) (\<lambda>state.
              Inr (state, 0)))
            else Inr sr) = Inr sr'"
    by (auto simp: compare_laser_def seq_Inr_iff)
  show ?thesis
  proof (cases "se \<noteq> ge")
    case False
    then have "sr' = sr" using b by simp
    then show ?thesis using r by (simp add: same_dims_def)
  next
    case True
    then obtain ste st' where ste: "exits_get (fst sr) i = Inr ste" and
      st': "(if ste = LASER_EMPTY then add_omitted i x y se (fst sr)
                   else exits_set (fst sr) i (ste OR LASER_WRONG)) = Inr st'" and
      e: "sr' = (st', 0)"
      using b by (auto simp: seq_Inr_iff)
    show ?thesis
    proof (cases "ste = LASER_EMPTY")
      case True
      then have "add_omitted i x y se (fst sr) = Inr st'"
        using st' by simp
      from add_omitted_effect [OF this] show ?thesis
        using r e by simp
    next
      case False
      then have "exits_set (fst sr) i (ste OR LASER_WRONG) = Inr st'"
        using st' by simp
      then have "same_dims (fst sr) st' \<and> grid st' = grid (fst sr)"
        by (auto simp: exits_set_Inr same_dims_def)
      then show ?thesis
        using r e by simp
    qed
  qed
qed

lemma same_dims_trans: "same_dims s t \<Longrightarrow> same_dims t u \<Longrightarrow> same_dims s u"
  by (simp add: same_dims_def)

lemma compare_laser_keeps:
  assumes "wf_state s" and "w s = h s" and "same_dims s sol" and "arena_kept s (fst sr)"
    and "compare_laser sol gue i sr = Inr sr'"
  shows "arena_kept s (fst sr')"
proof -
  let ?st = "fst sr" and ?st' = "fst sr'"
  have sd: "same_dims s ?st"
    using assms(4) by (simp add: arena_kept_def)
  from compare_laser_effect [OF assms(5)] obtain x y d where
    r: "range2grid sol i = Some (x, y, d)" and sd': "same_dims ?st ?st'" and
    g: "grid ?st' = grid ?st \<or>
      (\<exists>v. grid ?st' = (grid ?st)[nat (GRID_index ?st x y) := v]) \<or>
      (\<exists>v ex ey j dd. range2grid ?st j = Some (ex, ey, dd) \<and>
         grid ?st' = (grid ?st)[nat (GRID_index ?st x y) := v, nat (GRID_index ?st ex ey) := v])"
    by blast
  have rs: "range2grid s i = Some (x, y, d)"
    using r assms(3) range2grid_cong [of sol s i] by (simp add: same_dims_def)
  have gi: "GRID_index ?st a b = GRID_index s a b" for a b
    using sd by (simp add: GRID_index_def same_dims_def)
  have keep: "grid ?st' ! nat (GRID_index s (fst c) (snd c)) =
              grid ?st ! nat (GRID_index s (fst c) (snd c))" if c: "c \<in> set (arena s)" for c
  proof -
    note n1 = perimeter_index_ne [OF assms(1,2) rs c]
    from g show ?thesis
    proof (elim disjE exE conjE)
      assume "grid ?st' = grid ?st"
      then show ?thesis by simp
    next
      fix v
      assume "grid ?st' = (grid ?st)[nat (GRID_index ?st x y) := v]"
      then show ?thesis
        using n1 by (simp add: gi)
    next
      fix v ex ey j dd
      assume rj: "range2grid ?st j = Some (ex, ey, dd)" and
        e: "grid ?st' = (grid ?st)[nat (GRID_index ?st x y) := v, nat (GRID_index ?st ex ey) := v]"
      have "range2grid s j = Some (ex, ey, dd)"
        using rj sd range2grid_cong [of ?st s j] by (simp add: same_dims_def)
      note n2 = perimeter_index_ne [OF assms(1,2) this c]
      show ?thesis
        using n1 n2 by (simp add: e gi)
    qed
  qed
  show ?thesis
    using assms(4) keep same_dims_trans [OF sd sd'] by (simp add: arena_kept_def)
qed

lemma compare_loop_keeps:
  assumes "wf_state s" and "w s = h s" and "same_dims s sol"
    and "for_each xs (compare_laser sol gue) (s, r0) = Inr (st1, ret)"
  shows "arena_kept s st1"
proof -
  have "arena_kept s (fst (st1, ret))"
  proof (rule for_each_inv_mem [where I = "\<lambda>p. arena_kept s (fst p)" and A = UNIV, OF assms(4)])
    show "arena_kept s (fst (s, r0))" by (simp add: arena_kept_def same_dims_def)
  next
    show "set xs \<subseteq> UNIV" by simp
  next
    fix a t t'
    assume "arena_kept s (fst t)" "compare_laser sol gue a t = Inr t'"
    then show "arena_kept s (fst t')"
      using compare_laser_keeps [OF assms(1,2,3)] by blast
  qed
  then show ?thesis by simp
qed

lemma arena_kept_flags:
  assumes "arena_kept s t" and "c \<in> set (arena s)"
  shows "flag_set f t c = flag_set f s c"
  using assms
  by (simp add: arena_kept_def same_dims_def flag_set_def GRID_def rd_def GRID_index_def)

lemma fix_up_cell:
  assumes "fix_up x y t = Inr t'"
  shows "\<exists>c. GRID t x y = Inr c \<and>
     t' = t\<lparr>grid := (grid t)[nat (GRID_index t x y) :=
                      (if bit c 1 then set_bit 0 c else unset_bit 0 c)]\<rparr>"
proof -
  from assms obtain c where c: "GRID t x y = Inr c"
    by (auto simp: fix_up_def seq_Inr_iff)
  have "GRID_set t x y (if bit c 1 then set_bit 0 c else unset_bit 0 c) = Inr t'"
  proof (cases "bit c 1")
    case True
    then show ?thesis
      using assms c by (simp add: fix_up_def seq_def guess_iff or_correct)
  next
    case False
    then show ?thesis
      using assms c by (simp add: fix_up_def seq_def guess_iff and_not_correct)
  qed
  then show ?thesis
    using c unfolding GRID_set_Inr by blast
qed

lemma arena_index_eq:
  assumes "wf_state s" and "w s = h s" and "c \<in> set (arena s)" and "a \<in> set (arena s)"
  shows "GRID_index s (fst c) (snd c) = GRID_index s (fst a) (snd a) \<longleftrightarrow> c = a"
proof
  assume e: "GRID_index s (fst c) (snd c) = GRID_index s (fst a) (snd a)"
  have b: "1 \<le> fst c" "fst c \<le> w s" "1 \<le> fst a" "fst a \<le> w s"
    using assms(3,4) by (auto simp: set_arena)
  have "fst c = fst a \<and> snd c = snd a"
    using b assms(2) by (intro GRID_index_inj [OF _ _ _ _ e]) simp_all
  then show "c = a"
    by (simp add: prod_eq_iff)
qed simp

lemma fix_up_step_square:
  assumes "wf_state s" and "w s = h s" and "same_dims s u" and "a \<in> set (arena s)"
    and "fix_up (fst a) (snd a) u = Inr u'"
  shows "same_dims s u' \<and>
     (\<forall>c \<in> set (arena s). guessed u' c = guessed u c \<and> locked u' c = locked u c \<and>
        true_ball u' c = (if c = a then guessed u c else true_ball u c))"
proof -
  from fix_up_cell [OF assms(5)] obtain v where v: "GRID u (fst a) (snd a) = Inr v" and
    u': "u' = u\<lparr>grid := (grid u)[nat (GRID_index u (fst a) (snd a)) :=
                      (if bit v 1 then set_bit 0 v else unset_bit 0 v)]\<rparr>"
    by blast
  let ?v' = "if bit v 1 then set_bit 0 v else unset_bit 0 v"
  have lo: "0 \<le> GRID_index u (fst a) (snd a)"
    and hi: "GRID_index u (fst a) (snd a) < int (length (grid u))"
    using v by (simp_all add: GRID_Inr)
  have gi: "GRID_index u p q = GRID_index s p q" for p q
    using assms(3) by (simp add: GRID_index_def same_dims_def)
  have old: "guessed u a = bit v 1" "locked u a = bit v 2" "true_ball u a = bit v 0"
    using v
    by (simp_all add: guessed_def locked_def true_ball_def flag_set_def guess_iff lock_iff correct_iff)
  have new: "?v' AND BALL_GUESS \<noteq> 0 \<longleftrightarrow> bit v 1" "?v' AND BALL_LOCK \<noteq> 0 \<longleftrightarrow> bit v 2"
    "?v' AND BALL_CORRECT \<noteq> 0 \<longleftrightarrow> bit v 1"
    by (simp_all add: guess_iff lock_iff correct_iff bit_simps)
  have fl: "flag_set f u' c = (if c = a then ?v' AND f \<noteq> 0 else flag_set f u c)"
    if c: "c \<in> set (arena s)" for c f
  proof -
    have "flag_set f u' c =
        (if GRID_index u (fst c) (snd c) = GRID_index u (fst a) (snd a) then ?v' AND f \<noteq> 0
         else flag_set f u c)"
      unfolding u' by (rule flag_set_update [OF lo hi])
    then show ?thesis
      by (simp only: gi arena_index_eq [OF assms(1,2) c assms(4)])
  qed
  have "same_dims s u'"
    using assms(3) by (simp add: u' same_dims_def)
  moreover have "guessed u' c = guessed u c \<and> locked u' c = locked u c \<and>
        true_ball u' c = (if c = a then guessed u c else true_ball u c)"
    if c: "c \<in> set (arena s)" for c
    using fl [OF c] old new
    by (simp add: guessed_def locked_def true_ball_def)
  ultimately show ?thesis
    by blast
qed

lemma fix_up_loop_square:
  assumes "wf_state s" and "w s = h s" and "same_dims s st"
    and "for_each (arena s) (\<lambda>c. fix_up (fst c) (snd c)) st = Inr t"
  shows "same_dims s t \<and>
     (\<forall>c \<in> set (arena s). guessed t c = guessed st c \<and> true_ball t c = guessed st c)"
proof -
  let ?P = "\<lambda>dn u. same_dims s u \<and> set dn \<subseteq> set (arena s) \<and>
     (\<forall>c \<in> set (arena s). guessed u c = guessed st c) \<and>
     (\<forall>c \<in> set dn. true_ball u c = guessed st c)"
  have "?P ([] @ arena s) t"
  proof (rule for_each_invariant_mem [where P = ?P and A = "set (arena s)", OF assms(4)])
    show "?P [] st" using assms(3) by simp
  next
    show "set (arena s) \<subseteq> set (arena s)" by simp
  next
    fix dn a u u'
    assume a: "a \<in> set (arena s)" and p: "?P dn u" and f: "fix_up (fst a) (snd a) u = Inr u'"
    from p have sd: "same_dims s u" and dn: "set dn \<subseteq> set (arena s)" and
      g: "\<forall>c \<in> set (arena s). guessed u c = guessed st c" and
      t: "\<forall>c \<in> set dn. true_ball u c = guessed st c"
      by simp_all
    note e = fix_up_step_square [OF assms(1,2) sd a f]
    have 1: "same_dims s u'" using e by simp
    have 2: "\<forall>c \<in> set (arena s). guessed u' c = guessed st c"
      using e g by simp
    have 3: "true_ball u' c = guessed st c" if c: "c \<in> set (dn @ [a])" for c
    proof (cases "c = a")
      case True
      then show ?thesis using e g a by simp
    next
      case False
      then have m: "c \<in> set dn" using c by simp
      then have "c \<in> set (arena s)" using dn by blast
      then have "true_ball u' c = true_ball u c"
        using e False by simp
      then show ?thesis using t m by simp
    qed
    show "?P (dn @ [a]) u'"
      using 1 2 3 dn a by simp
  qed
  then show ?thesis by simp
qed

lemma cells_card:
  "int (card {c \<in> set xs. P c \<and> Q c}) = int (card (set (filter P xs) \<inter> set (filter Q xs)))"
  "int (card {c \<in> set xs. P c \<and> \<not> Q c}) = int (card (set (filter P xs) - set (filter Q xs)))"
proof -
  have "{c \<in> set xs. P c \<and> Q c} = set (filter P xs) \<inter> set (filter Q xs)"
    by auto
  then show "int (card {c \<in> set xs. P c \<and> Q c}) = int (card (set (filter P xs) \<inter> set (filter Q xs)))"
    by simp
  have "{c \<in> set xs. P c \<and> \<not> Q c} = set (filter P xs) - set (filter Q xs)"
    by auto
  then show "int (card {c \<in> set xs. P c \<and> \<not> Q c}) = int (card (set (filter P xs) - set (filter Q xs)))"
    by simp
qed

text \<open>On the square board of the example a guess equal to the layout is found consistent,
  with two right guesses and none wrong or missed.\<close>

lemma check_guesses_square_example:
  "guessed_cells game55_right = true_cells game55_right \<and>
   check_guesses game55_right = Some (Inr (1, game55_right\<lparr>nright := 2\<rparr>))"
  by code_simp

text \<open>A fire move whose index is outside the exit table reads the table there, before
  \<^verbatim>\<open>range2grid\<close> is asked.\<close>

lemma execute_move_fire_reads_first:
  assumes "wf_state s" and "reveal s = 0" and "move = CHR ''F'' # rest"
    and "sscanf_d rest (- 1) < 0 \<or> nlasers s \<le> sscanf_d rest (- 1)"
  shows "execute_move s move = Some (Inl Out_of_bounds)"
proof -
  have "int (length (exits s)) = nlasers s"
    using assms(1) by (simp add: wf_state_def)
  then have "exits_get s (sscanf_d rest (- 1)) = Inl Out_of_bounds"
    using assms(4) by (auto simp: exits_get_def rd_def)
  then show ?thesis
    using assms(2,3) by (simp add: execute_move_def dup_game_wf [OF assms(1)] Let_def)
qed

section \<open>The coordinate mappers on a board that is wider than high\<close>

text \<open>C2 (round trip of the coordinate mappers).  On the board 3 wide and 2 high the
  perimeter index 3 is valid; \<^verbatim>\<open>range2grid\<close> maps it to the cell \<open>(4, 1)\<close> on the right
  edge, and \<^verbatim>\<open>grid2range\<close> rejects that cell, because it compares \<open>x\<close> with
  \<open>h + 1\<close> where the width is meant.  The round trip fails there.\<close>

theorem range2grid_grid2range_wide_board:
  "range2grid game32_a 3 = Some (4, 1, DIR_LEFT) \<and> grid2range game32_a 4 1 = None"
  by (simp add: range2grid_def grid2range_def game32_a_def)

section \<open>The probe on a board that is not square\<close>

text \<open>C3 (a probe outside the arena reports no ball).  On the board 3 wide and 2 high,
  after the laser 0 has been fired, the cell \<open>(1, 3)\<close> of the bottom edge holds the
  laser number 1.  From the arena cell \<open>(1, 2)\<close>, looking forward in the direction down,
  \<^verbatim>\<open>isball\<close> probes that cell of the perimeter ring and reports a ball: its bounds test
  compares the column with \<open>h\<close> and the row with \<open>w\<close>.\<close>

theorem isball_perimeter_marker:
  "probed_cell 1 2 DIR_DOWN LOOK_FORWARD = (1, 3) \<and>
   \<not> in_arena game32_b_fired (1, 3) \<and>
   range2grid game32_b_fired 7 = Some (1, 3, DIR_UP) \<and>
   GRID game32_b_fired 1 3 = Inr 1 \<and>
   isball game32_b_fired 1 2 DIR_DOWN LOOK_FORWARD = Inr True"
  by code_simp

section \<open>The first step of a ray on a board that is not square\<close>

text \<open>C4 (an instant hit at the origin).  On the board 3 wide and 2 high with a ball
  in the arena cell \<open>(3, 1)\<close>, the laser 2 starts at \<open>(3, 0)\<close> and points down, so the
  ball is straight ahead.  \<^verbatim>\<open>fire_laser\<close> does not mark a hit: \<^verbatim>\<open>isball\<close> takes
  the column 3 for one beyond the arena, the ray steps onto the ball and the assertion
  of the loop fails.\<close>

theorem fire_laser_misses_ball_ahead:
  "range2grid game32_c 2 = Some (3, 0, DIR_DOWN) \<and>
   probed_cell 3 0 DIR_DOWN LOOK_FORWARD = (3, 1) \<and>
   in_arena game32_c (3, 1) \<and> true_ball game32_c (3, 1) \<and>
   isball game32_c 3 0 DIR_DOWN LOOK_FORWARD = Inr False \<and>
   fire_laser game32_c 3 0 DIR_DOWN = Some (Inl Assert_failed)"
  by code_simp

section \<open>A ray that leaves by the right edge of a board that is wider than high\<close>

text \<open>C5 (a ray that comes back to the perimeter).  On the board 3 wide and 2 high with
  a ball at \<open>(2, 2)\<close>, the ray of the laser 2 enters at \<open>(3, 0)\<close>, is turned to the right
  at \<open>(3, 1)\<close> by the ball on its front right, and steps onto \<open>(4, 1)\<close>, the cell of the
  perimeter index 3.  \<^verbatim>\<open>grid2range\<close> does not accept that cell, so the loop does not
  pair the slots 2 and 3: it goes on beyond the board and ends on a failing assertion.\<close>

theorem fire_laser_right_edge_not_paired:
  "range2grid game32_d 2 = Some (3, 0, DIR_DOWN) \<and>
   isball game32_d 3 1 DIR_DOWN LOOK_RIGHT = Inr True \<and>
   OFFSET 3 1 DIR_RIGHT = (4, 1) \<and>
   range2grid game32_d 3 = Some (4, 1, DIR_LEFT) \<and>
   grid2range game32_d 4 1 = None \<and>
   fire_loop game32_d 3 0 2 4 1 DIR_RIGHT = Some (Inl Assert_failed) \<and>
   fire_laser game32_d 3 0 DIR_DOWN = Some (Inl Assert_failed)"
  by code_simp

section \<open>The consistency check on a board that is not square\<close>

text \<open>C1 (a guess equal to the layout is consistent).  On the board 3 wide and 2 high
  with its one ball at \<open>(1, 1)\<close> guessed, the guessed cells are the cells with a ball,
  and \<^verbatim>\<open>check_guesses\<close> does not return: it fires the laser 3 from the right edge,
  where the assertion of \<^verbatim>\<open>fire_laser\<close> on \<^verbatim>\<open>grid2range\<close> fails.\<close>

theorem check_guesses_aborts_wide_board:
  "guessed_cells game32_a_guessed = true_cells game32_a_guessed \<and>
   guessed_cells game32_a_guessed = [(1, 1)] \<and>
   check_guesses game32_a_guessed = Some (Inl Assert_failed)"
  by code_simp

section \<open>Moves\<close>

text \<open>C9 (a fire move with an index out of range).  \<^verbatim>\<open>execute_move\<close> reads
  \<^verbatim>\<open>ret->exits[rangeno]\<close> before \<^verbatim>\<open>range2grid\<close> has checked the index: with the
  index 99, and with the index -1 that a move text without a number leaves, the exit
  table of 20 slots is read out of bounds.\<close>

theorem execute_move_fire_out_of_range:
  "execute_move game55 ''F99'' = Some (Inl Out_of_bounds) \<and>
   execute_move game55 ''F'' = Some (Inl Out_of_bounds) \<and>
   range2grid game55 99 = None \<and> range2grid game55 (-1) = None"
  by code_simp

text \<open>C6 (the counts after a reveal).  When the reveal move returns a state \<open>s'\<close> for
  the state \<open>s\<close>, \<^verbatim>\<open>check_guesses\<close> has returned a value \<open>ret\<close>; the guessed
  cells of \<open>s'\<close> are the guessed cells of \<open>s\<close>; the cells with a ball in \<open>s'\<close> are the
  cells with a ball in \<open>s\<close> when \<open>ret\<close> is 0, and the guessed cells of \<open>s\<close> when the
  check reported a consistent guess; and the three counts of \<open>s'\<close> are the numbers of
  arena cells that are guessed and hold a ball, guessed without a ball, and with a ball
  but not guessed.  The first example that follows is the game 5 by 5 with balls at
  \<open>(1,1)\<close> and \<open>(2,2)\<close> and guesses at \<open>(1,1)\<close> and \<open>(3,3)\<close>: each count is 1.
  The second is the game 3 by 3 with balls at \<open>(1,1)\<close> and \<open>(3,3)\<close> and guesses at
  \<open>(1,3)\<close> and \<open>(3,1)\<close>: the check reports a consistent guess, the balls become the
  guesses, and the counts are 2, 0 and 0.\<close>

theorem reveal_counts:
  assumes "wf_state s" and "execute_move s (CHR ''R'' # rest) = Some (Inr (Some s'))"
  shows "\<exists>ret st. check_guesses s = Some (Inr (ret, st)) \<and> s' = st\<lparr>reveal := 1\<rparr> \<and>
     w s' = w s \<and> h s' = h s \<and>
     guessed_cells s' = guessed_cells s \<and>
     true_cells s' = (if ret = 0 then true_cells s else guessed_cells s) \<and>
     nright s' = int (card (set (guessed_cells s) \<inter> set (true_cells s'))) \<and>
     nwrong s' = int (card (set (guessed_cells s) - set (true_cells s'))) \<and>
     nmissed s' = int (card (set (true_cells s') - set (guessed_cells s)))"
proof -
  from execute_move_reveal [OF assms] obtain ret st where
    cg: "check_guesses s = Some (Inr (ret, st))" and s': "s' = st\<lparr>reveal := 1\<rparr>"
    by blast
  have sq: "w s = h s"
    by (rule check_guesses_square [OF assms(1) cg])
  from check_guesses_stages [OF assms(1) cg] obtain sol1 gue0 gue1 sol2 gue2 st1 st2 where
    1: "for_each [0..nlasers s - 1] clear_laser s = Inr sol1" and
    4: "for_each_d [0..nlasers sol1 - 1] fire_both (sol1, gue1) = Some (Inr (sol2, gue2))" and
    5: "for_each [0..nlasers sol2 - 1] (compare_laser sol2 gue2) (s, 1) = Inr (st1, ret)" and
    6: "(if ret = 0 then Inr st1 else for_arena st1 fix_up st1) = Inr st2" and
    7: "fill_counts st2 = Inr st"
    by metis
  have sd2: "same_dims s sol2"
    using fire_loop_dims [OF 4] clear_loop_dims [OF 1] by simp
  have k1: "arena_kept s st1"
    by (rule compare_loop_keeps [OF assms(1) sq sd2 5])
  then have sd1: "same_dims s st1"
    by (simp add: arena_kept_def)
  then have a1: "arena st1 = arena s"
    by (simp add: arena_def same_dims_def)
  have f1: "guessed st1 c = guessed s c" "true_ball st1 c = true_ball s c"
    if "c \<in> set (arena s)" for c
    unfolding guessed_def true_ball_def using arena_kept_flags [OF k1 that] by simp_all
  have st2: "same_dims s st2 \<and> (\<forall>c \<in> set (arena s). guessed st2 c = guessed s c \<and>
       true_ball st2 c = (if ret = 0 then true_ball s c else guessed s c))"
  proof (cases "ret = 0")
    case True
    then have "st2 = st1" using 6 by simp
    then show ?thesis using sd1 f1 True by simp
  next
    case False
    then have "for_each (arena s) (\<lambda>c. fix_up (fst c) (snd c)) st1 = Inr st2"
      using 6 by (simp add: for_arena_flat a1)
    from fix_up_loop_square [OF assms(1) sq sd1 this] show ?thesis
      using f1 False by simp
  qed
  note e = fill_counts_effect [OF 7]
  have d: "w s' = w s" "h s' = h s"
    using e st2 by (simp_all add: s' same_dims_def)
  have a: "arena st = arena s" "arena s' = arena s"
    using e st2 by (simp_all add: s' arena_def same_dims_def)
  have fst: "guessed st = guessed st2" "true_ball st = true_ball st2"
    unfolding guessed_def true_ball_def using e by (auto intro: flag_set_cong)
  have fs': "guessed s' = guessed st" "true_ball s' = true_ball st"
    unfolding guessed_def true_ball_def s' by (rule flag_set_cong; simp)+
  have g: "guessed_cells s' = guessed_cells s"
    unfolding guessed_cells_def a fs' fst using st2 by (auto intro: filter_cong)
  have t: "true_cells s' = (if ret = 0 then true_cells s else guessed_cells s)"
    unfolding guessed_cells_def true_cells_def a fs' fst using st2 by (auto intro: filter_cong)
  have gt: "guessed_cells st = guessed_cells s'" "true_cells st = true_cells s'"
    unfolding guessed_cells_def true_cells_def a fs' by simp_all
  have n1: "nright st = int (card {c \<in> set (arena st). guessed st c \<and> true_ball st c})"
    and n2: "nwrong st = int (card {c \<in> set (arena st). guessed st c \<and> \<not> true_ball st c})"
    and n3: "nmissed st = int (card {c \<in> set (arena st). true_ball st c \<and> \<not> guessed st c})"
    using e by blast+
  have n: "nright st = int (card (set (guessed_cells st) \<inter> set (true_cells st)))"
    "nwrong st = int (card (set (guessed_cells st) - set (true_cells st)))"
    "nmissed st = int (card (set (true_cells st) - set (guessed_cells st)))"
    unfolding guessed_cells_def true_cells_def
    by (simp only: n1 cells_card(1), simp only: n2 cells_card(2), simp only: n3 cells_card(2))
  have c: "nright s' = int (card (set (guessed_cells s) \<inter> set (true_cells s')))"
    "nwrong s' = int (card (set (guessed_cells s) - set (true_cells s')))"
    "nmissed s' = int (card (set (true_cells s') - set (guessed_cells s)))"
    using n unfolding gt g by (simp_all add: s')
  show ?thesis
    using cg s' d g t c by blast
qed

theorem reveal_counts_example:
  "wf_state game55_guessed \<and>
   true_cells game55_guessed = [(1, 1), (2, 2)] \<and>
   guessed_cells game55_guessed = [(1, 1), (3, 3)] \<and>
   execute_move game55_guessed ''R'' = Some (Inr (Some game55_revealed)) \<and>
   check_guesses game55_guessed = Some (Inr (0, game55_revealed\<lparr>reveal := 0\<rparr>)) \<and>
   guessed_cells game55_revealed = [(1, 1), (3, 3)] \<and>
   true_cells game55_revealed = [(1, 1), (2, 2)] \<and>
   nright game55_revealed = 1 \<and> nwrong game55_revealed = 1 \<and> nmissed game55_revealed = 1 \<and>
   wf_state game33_guessed \<and>
   true_cells game33_guessed = [(1, 1), (3, 3)] \<and>
   guessed_cells game33_guessed = [(1, 3), (3, 1)] \<and>
   execute_move game33_guessed ''R'' = Some (Inr (Some game33_revealed)) \<and>
   check_guesses game33_guessed = Some (Inr (1, game33_revealed\<lparr>reveal := 0\<rparr>)) \<and>
   guessed_cells game33_revealed = [(1, 3), (3, 1)] \<and>
   true_cells game33_revealed = [(1, 3), (3, 1)] \<and>
   nright game33_revealed = 2 \<and> nwrong game33_revealed = 0 \<and> nmissed game33_revealed = 0"
proof -
  have wf: "wf_state game55_guessed"
    by (simp add: wf_state_def game55_guessed_def game55_def)
  have cells: "true_cells game55_guessed = [(1, 1), (2, 2)]"
      "guessed_cells game55_guessed = [(1, 1), (3, 3)]"
    by code_simp+
  have run: "execute_move game55_guessed ''R'' = Some (Inr (Some game55_revealed))"
    by code_simp
  have cg: "check_guesses game55_guessed = Some (Inr (0, game55_revealed\<lparr>reveal := 0\<rparr>))"
    by code_simp
  from reveal_counts [OF wf run] obtain ret st where
    r: "check_guesses game55_guessed = Some (Inr (ret, st))" and
    g: "guessed_cells game55_revealed = guessed_cells game55_guessed" and
    t: "true_cells game55_revealed =
          (if ret = 0 then true_cells game55_guessed else guessed_cells game55_guessed)" and
    n: "nright game55_revealed =
          int (card (set (guessed_cells game55_guessed) \<inter> set (true_cells game55_revealed)))"
       "nwrong game55_revealed =
          int (card (set (guessed_cells game55_guessed) - set (true_cells game55_revealed)))"
       "nmissed game55_revealed =
          int (card (set (true_cells game55_revealed) - set (guessed_cells game55_guessed)))"
    by blast
  have "ret = 0"
    using r cg by simp
  then have t': "true_cells game55_revealed = [(1, 1), (2, 2)]"
    using t cells by simp
  have i: "set [(1, 1), (3, 3)] \<inter> set [(1, 1), (2, 2)] = {(1 :: int, 1 :: int)}"
    "set [(1, 1), (3, 3)] - set [(1, 1), (2, 2)] = {(3 :: int, 3 :: int)}"
    "set [(1, 1), (2, 2)] - set [(1, 1), (3, 3)] = {(2 :: int, 2 :: int)}"
    by auto
  have c55: "nright game55_revealed = 1" "nwrong game55_revealed = 1"
    "nmissed game55_revealed = 1"
    using n unfolding t' cells i by simp_all
  have wf3: "wf_state game33_guessed"
    by (simp add: wf_state_def game33_guessed_def game33_def)
  have cells3: "true_cells game33_guessed = [(1, 1), (3, 3)]"
      "guessed_cells game33_guessed = [(1, 3), (3, 1)]"
    by code_simp+
  have run3: "execute_move game33_guessed ''R'' = Some (Inr (Some game33_revealed))"
    by code_simp
  have cg3: "check_guesses game33_guessed = Some (Inr (1, game33_revealed\<lparr>reveal := 0\<rparr>))"
    by code_simp
  from reveal_counts [OF wf3 run3] obtain ret3 st3 where
    r3: "check_guesses game33_guessed = Some (Inr (ret3, st3))" and
    g3: "guessed_cells game33_revealed = guessed_cells game33_guessed" and
    t3: "true_cells game33_revealed =
          (if ret3 = 0 then true_cells game33_guessed else guessed_cells game33_guessed)" and
    n3: "nright game33_revealed =
          int (card (set (guessed_cells game33_guessed) \<inter> set (true_cells game33_revealed)))"
       "nwrong game33_revealed =
          int (card (set (guessed_cells game33_guessed) - set (true_cells game33_revealed)))"
       "nmissed game33_revealed =
          int (card (set (true_cells game33_revealed) - set (guessed_cells game33_guessed)))"
    by blast
  have "ret3 = 1"
    using r3 cg3 by simp
  then have t3': "true_cells game33_revealed = [(1, 3), (3, 1)]"
    using t3 cells3 by simp
  have i3: "set [(1, 3), (3, 1)] \<inter> set [(1, 3), (3, 1)] = {(1 :: int, 3 :: int), (3, 1)}"
    "set [(1, 3), (3, 1)] - set [(1, 3), (3, 1)] = ({} :: (int \<times> int) set)"
    by auto
  have c33: "nright game33_revealed = 2" "nwrong game33_revealed = 0"
    "nmissed game33_revealed = 0"
    using n3 unfolding t3' cells3 i3 by simp_all
  show ?thesis
    using wf cells run cg g t' c55 wf3 cells3 run3 cg3 g3 t3' c33 by simp
qed





text \<open>C7 (no move leaves the revealed state).  Once \<^verbatim>\<open>reveal\<close> is set,
  \<^verbatim>\<open>execute_move\<close> returns the null pointer for every move text other than the solve
  request \<^verbatim>\<open>S\<close>; the texts of the six move commands start with T, L, F or R, so each
  of them is rejected.  The state given is a value of the model: nothing changes it.\<close>

theorem execute_move_revealed:
  assumes "wf_state s" and "reveal s \<noteq> 0" and "move \<noteq> ''S''"
  shows "execute_move s move = Some (Inr None)"
  using assms by (simp add: execute_move_def dup_game_wf badmove_def)

theorem execute_move_revealed_witness:
  "wf_state (game55\<lparr>reveal := 1\<rparr>) \<and> reveal (game55\<lparr>reveal := 1\<rparr>) \<noteq> 0 \<and> ''F3'' \<noteq> ''S'' \<and>
   execute_move (game55\<lparr>reveal := 1\<rparr>) ''F3'' = Some (Inr None)"
proof -
  have a: "wf_state (game55\<lparr>reveal := 1\<rparr>)"
    by (simp add: wf_state_def game55_def)
  have b: "reveal (game55\<lparr>reveal := 1\<rparr>) \<noteq> 0"
    by simp
  have c: "''F3'' \<noteq> ''S''"
    by simp
  show ?thesis
    using a b c execute_move_revealed [OF a b c] by simp
qed

lemma heap_ok_heap24: "heap_ok heap24"
  by (auto simp: heap_ok_def heap24_def split: if_splits)

lemma load_heap24: "load heap24 0 = Some game24"
  by (simp add: load_def heap24_def game24_def)

text \<open>C10 (a move never changes the state it is applied to, and returns the null
  pointer or a new state).  On the board 2 wide and 4 high, which \<^verbatim>\<open>new_game\<close>
  builds, the move \<^verbatim>\<open>T2,4\<close> names a cell of the arena and passes the checks of
  \<^verbatim>\<open>execute_move\<close>; the cell has the place 26 in the grid of the duplicate, which has
  24 cells.  \<^verbatim>\<open>execute_move\<close> reads and writes there, outside the array: it returns
  neither the null pointer nor a new state, on values and in memory.  On the board 3 wide
  and 2 high the move \<^verbatim>\<open>F3\<close> ends on a failing assertion in the same way.\<close>

theorem execute_move_grid_overrun:
  "new_game 1 1 [2, 4, 0, 0] = Inr game24 \<and> wf_state game24 \<and> reveal game24 = 0 \<and>
   load heap24 0 = Some game24 \<and>
   sscanf_d_d ''2,4'' (-1, -1) = (2, 4) \<and> in_arena game24 (2, 4) \<and>
   GRID_index game24 2 4 = 26 \<and> length (grid game24) = 24 \<and>
   execute_move game24 ''T2,4'' = Some (Inl Out_of_bounds) \<and>
   execute_move_h heap24 0 ''T2,4'' = Some (Inl Out_of_bounds) \<and>
   execute_move game32_a ''F3'' = Some (Inl Assert_failed)"
proof -
  have v: "execute_move game24 ''T2,4'' = Some (Inl Out_of_bounds)"
    by code_simp
  have m: "execute_move_h heap24 0 ''T2,4'' = Some (Inl Out_of_bounds)"
    using execute_move_h_rel [OF heap_ok_heap24 load_heap24 dup_game_wf [OF wf_game24],
        of "''T2,4''"]
    by (simp add: rel_def v)
  have c: "sscanf_d_d ''2,4'' (-1, -1) = (2, 4) \<and> in_arena game24 (2, 4) \<and>
      GRID_index game24 2 4 = 26 \<and> length (grid game24) = 24 \<and> reveal game24 = 0"
    by code_simp
  have f: "execute_move game32_a ''F3'' = Some (Inl Assert_failed)"
    by code_simp
  show ?thesis
    using game24_new wf_game24 load_heap24 v m c f by simp
qed

end
